theory Spec2Isabelle
  imports Main "HOL-Library.Sublist" "HOL-Library.AList"
begin

section \<open>Python values used by usb-fatmove\<close>

text \<open>
  Strings are \<open>char list\<close>; a character is a byte, so the model covers ASCII text.
  The exceptions the modelled functions can raise are values of \<open>error\<close>; a function
  that can raise returns \<open>error + 'a\<close> with \<open>Inl\<close> for the exception.
\<close>

datatype error = ValueError | IndexError | EOFError | UnicodeDecodeError

text \<open>The constants mirrored in the config file (lines 25-27).\<close>

definition NO :: int where "NO = 0"
definition YES :: int where "YES = 1"
definition PROMPT :: int where "PROMPT = 2"

subsection \<open>str.lower, str.startswith, str.endswith\<close>

definition lower_char :: "char \<Rightarrow> char" where
  "lower_char c =
     (case map_of (zip ''ABCDEFGHIJKLMNOPQRSTUVWXYZ'' ''abcdefghijklmnopqrstuvwxyz'') c of
        Some d \<Rightarrow> d
      | None \<Rightarrow> c)"

definition lower :: "string \<Rightarrow> string" where
  "lower s = map lower_char s"

definition startswith :: "string \<Rightarrow> string \<Rightarrow> bool" where
  "startswith s p = (take (length p) s = p)"

definition endswith :: "string \<Rightarrow> string \<Rightarrow> bool" where
  "endswith s e = (length e \<le> length s \<and> drop (length s - length e) s = e)"

text \<open>\<open>s.endswith(t)\<close> for a tuple \<open>t\<close> of suffixes.\<close>

definition endswith_any :: "string \<Rightarrow> string list \<Rightarrow> bool" where
  "endswith_any s es = list_ex (endswith s) es"

subsection \<open>list.index and list.pop\<close>

fun index_from :: "nat \<Rightarrow> 'a list \<Rightarrow> 'a \<Rightarrow> nat option" where
  "index_from n [] x = None"
| "index_from n (y # ys) x = (if y = x then Some n else index_from (Suc n) ys x)"

text \<open>\<open>xs.index(x)\<close>: the first position of \<open>x\<close>, ValueError when it is absent.\<close>

definition index :: "'a list \<Rightarrow> 'a \<Rightarrow> error + nat" where
  "index xs x = (case index_from 0 xs x of None \<Rightarrow> Inl ValueError | Some i \<Rightarrow> Inr i)"

text \<open>\<open>xs.pop(i)\<close> for \<open>i \<ge> 0\<close>: IndexError out of range; the popped value is not used.\<close>

definition pop :: "nat \<Rightarrow> 'a list \<Rightarrow> error + 'a list" where
  "pop i xs = (if i < length xs then Inr (take i xs @ drop (Suc i) xs) else Inl IndexError)"

section \<open>prompt (lines 30-45)\<close>

text \<open>
  Standard input is the list of the lines still to be read; \<open>input()\<close> on an exhausted
  input raises EOFError. \<open>distutils.util.strtobool\<close> accepts the words below and raises
  ValueError otherwise, which \<open>prompt\<close> catches to ask again. What \<open>prompt\<close> writes to
  standard output is not recorded, and Python's bound on the recursion depth is not
  modelled.
\<close>

definition strtobool :: "string \<Rightarrow> error + bool" where
  "strtobool v =
     (let val = lower v in
      if val \<in> set [''y'', ''yes'', ''t'', ''true'', ''on'', ''1''] then Inr True
      else if val \<in> set [''n'', ''no'', ''f'', ''false'', ''off'', ''0''] then Inr False
      else Inl ValueError)"

fun prompt :: "string list \<Rightarrow> error + (bool \<times> string list)" where
  "prompt [] = Inl EOFError"
| "prompt (r # rs) =
     (case strtobool (lower r) of
        Inr result \<Rightarrow> Inr (result, rs)
      | Inl _ \<Rightarrow> prompt rs)"

section \<open>filterOutExtensions (lines 324-405)\<close>

text \<open>
  The settings are seen through \<open>configsettings.getint\<close>: \<open>cfg k\<close> is the integer stored
  under the key \<open>k\<close>, and \<open>None\<close> (Python's None) when the section has no such key.
\<close>

type_synonym settings = "string \<Rightarrow> int option"

definition audioExt :: "string list" where
  "audioExt = [''.flac'', ''.ogg'', ''.mp4'', ''.alac'', ''.aac'', ''.mp3'']"

definition imageExt :: "string list" where
  "imageExt = [''.jpg'', ''.jpeg'', ''.bmp'', ''.png'', ''.gif'']"

definition logExt :: "string list" where "logExt = [''.log'']"
definition cueExt :: "string list" where "cueExt = [''.cue'']"
definition m3uExt :: "string list" where "m3uExt = [''.m3u'']"

text \<open>Lines 335-353: each extension group with the setting the code loads for it.\<close>

definition extensionList :: "settings \<Rightarrow> (string list \<times> int option) list" where
  "extensionList cfg =
     (let imageOption = cfg ''RemoveCue'';
          logOption = cfg ''RemoveLog'';
          cueOption = cfg ''RemoveCue'';
          m3uOption = cfg ''RemoveM4U''
      in [(imageExt, imageOption), (logExt, logOption), (cueExt, cueOption),
          (m3uExt, m3uOption)])"

definition nonAudioExt :: "string list" where
  "nonAudioExt = imageExt @ logExt @ cueExt @ m3uExt"

text \<open>
  The test of lines 378-380 and 390-392,
  \<open>(option == PROMPT and (noninteractive or prompt(..))) or option == NO\<close>:
  True keeps the file. It reads standard input only when the option is PROMPT and the
  run is interactive.
\<close>

definition keepFile :: "int option \<Rightarrow> bool \<Rightarrow> string list \<Rightarrow> error + (bool \<times> string list)" where
  "keepFile removeOption noninteractive stdin =
     (if removeOption = Some PROMPT then
        (if noninteractive then Inr (True, stdin)
         else (case prompt stdin of
                 Inl e \<Rightarrow> Inl e
               | Inr (ans, stdin') \<Rightarrow> Inr (ans \<or> removeOption = Some NO, stdin')))
      else Inr (removeOption = Some NO, stdin))"

text \<open>
  The inner loop of lines 373-385 over the extension groups, for one file: a kept file
  leaves the loop (\<open>break\<close>), a removed one appends its index and goes on to the next group.
\<close>

fun extLoop :: "(string list \<times> int option) list \<Rightarrow> string list \<Rightarrow> bool \<Rightarrow> string \<Rightarrow>
    nat list \<times> string list \<Rightarrow> error + (nat list \<times> string list)" where
  "extLoop [] sourceFileList noninteractive file st = Inr st"
| "extLoop ((ext, removeOption) # rest) sourceFileList noninteractive file (indexList, stdin) =
     (if endswith_any (lower file) ext then
        (case keepFile removeOption noninteractive stdin of
           Inl e \<Rightarrow> Inl e
         | Inr (True, stdin') \<Rightarrow> Inr (indexList, stdin')
         | Inr (False, stdin') \<Rightarrow>
             (case index sourceFileList file of
                Inl e \<Rightarrow> Inl e
              | Inr i \<Rightarrow> extLoop rest sourceFileList noninteractive file (indexList @ [i], stdin')))
      else extLoop rest sourceFileList noninteractive file (indexList, stdin))"

text \<open>The body of the loop of lines 365-397 for one file.\<close>

definition markFile :: "settings \<Rightarrow> string list \<Rightarrow> bool \<Rightarrow> string \<Rightarrow>
    nat list \<times> string list \<Rightarrow> error + (nat list \<times> string list)" where
  "markFile cfg sourceFileList noninteractive file st =
     (if endswith_any (lower file) audioExt then Inr st
      else if endswith_any (lower file) nonAudioExt then
        extLoop (extensionList cfg) sourceFileList noninteractive file st
      else
        (case keepFile (cfg ''RemoveOtherFiletypes'') noninteractive (snd st) of
           Inl e \<Rightarrow> Inl e
         | Inr (True, stdin') \<Rightarrow> Inr (fst st, stdin')
         | Inr (False, stdin') \<Rightarrow>
             (case index sourceFileList file of
                Inl e \<Rightarrow> Inl e
              | Inr i \<Rightarrow> Inr (fst st @ [i], stdin'))))"

text \<open>The loop of lines 365-397: \<open>files\<close> is the part of the list still to visit.\<close>

fun markLoop :: "settings \<Rightarrow> string list \<Rightarrow> bool \<Rightarrow> string list \<Rightarrow>
    nat list \<times> string list \<Rightarrow> error + (nat list \<times> string list)" where
  "markLoop cfg sourceFileList noninteractive [] st = Inr st"
| "markLoop cfg sourceFileList noninteractive (file # files) st =
     (case markFile cfg sourceFileList noninteractive file st of
        Inl e \<Rightarrow> Inl e
      | Inr st' \<Rightarrow> markLoop cfg sourceFileList noninteractive files st')"

text \<open>The loop of lines 401-403 over the indices, already reversed.\<close>

fun popLoop :: "nat list \<Rightarrow> string list \<times> string list \<Rightarrow> error + (string list \<times> string list)" where
  "popLoop [] both = Inr both"
| "popLoop (i # is) (sourceFileList, destinationFileList) =
     (case pop i sourceFileList of
        Inl e \<Rightarrow> Inl e
      | Inr sourceFileList' \<Rightarrow>
          (case pop i destinationFileList of
             Inl e \<Rightarrow> Inl e
           | Inr destinationFileList' \<Rightarrow> popLoop is (sourceFileList', destinationFileList')))"

text \<open>
  The function changes its two lists in place and returns nothing; the model returns the
  two lists as they are afterwards, with the lines left on standard input.
\<close>

definition filterOutExtensions :: "string list \<Rightarrow> string list \<Rightarrow> settings \<Rightarrow> bool \<Rightarrow>
    string list \<Rightarrow> error + ((string list \<times> string list) \<times> string list)" where
  "filterOutExtensions sourceFileList destinationFileList cfg noninteractive stdin =
     (case markLoop cfg sourceFileList noninteractive sourceFileList ([], stdin) of
        Inl e \<Rightarrow> Inl e
      | Inr (indexList, stdin') \<Rightarrow>
          (case popLoop (rev indexList) (sourceFileList, destinationFileList) of
             Inl e \<Rightarrow> Inl e
           | Inr both \<Rightarrow> Inr (both, stdin')))"

section \<open>Paths (posixpath)\<close>

text \<open>
  The functions of \<open>os.path\<close> that the program calls, after their library source.
  \<open>split_on\<close> is \<open>str.split(sep)\<close> and \<open>join_with\<close> is \<open>sep.join\<close>.
\<close>

fun split_on :: "char \<Rightarrow> string \<Rightarrow> string list" where
  "split_on sep [] = [[]]"
| "split_on sep (c # cs) =
     (if c = sep then [] # split_on sep cs
      else (case split_on sep cs of
              [] \<Rightarrow> [[c]]
            | w # ws \<Rightarrow> (c # w) # ws))"

fun join_with :: "string \<Rightarrow> string list \<Rightarrow> string" where
  "join_with sep [] = []"
| "join_with sep [w] = w"
| "join_with sep (w # ws) = w @ sep @ join_with sep ws"

definition isabs :: "string \<Rightarrow> bool" where
  "isabs p = startswith p ''/''"

text \<open>\<open>os.path.join(a, b)\<close> for two arguments.\<close>

definition join :: "string \<Rightarrow> string \<Rightarrow> string" where
  "join a b =
     (if startswith b ''/'' then b
      else if a = [] \<or> endswith a ''/'' then a @ b
      else a @ ''/'' @ b)"

text \<open>The loop of \<open>normpath\<close> over the components; \<open>new_comps\<close> is the list built so far.\<close>

fun normLoop :: "bool \<Rightarrow> string list \<Rightarrow> string list \<Rightarrow> string list" where
  "normLoop initial_slashes [] new_comps = new_comps"
| "normLoop initial_slashes (name # comps) new_comps =
     (if name = [] \<or> name = ''.'' then normLoop initial_slashes comps new_comps
      else if name \<noteq> ''..'' \<or> (\<not> initial_slashes \<and> new_comps = [])
              \<or> (new_comps \<noteq> [] \<and> last new_comps = ''..'')
        then normLoop initial_slashes comps (new_comps @ [name])
      else if new_comps \<noteq> [] then normLoop initial_slashes comps (butlast new_comps)
      else normLoop initial_slashes comps new_comps)"

definition normpath :: "string \<Rightarrow> string" where
  "normpath path =
     (if path = [] then ''.''
      else
        let initial_slashes =
              (if startswith path ''//'' \<and> \<not> startswith path ''///'' then 2
               else if startswith path ''/'' then 1 else 0 :: nat);
            comps = normLoop (0 < initial_slashes) (split_on CHR ''/'' path) [];
            path' = replicate initial_slashes CHR ''/'' @ join_with ''/'' comps
        in if path' = [] then ''.'' else path')"

text \<open>\<open>os.path.abspath\<close>; \<open>cwd\<close> is what \<open>os.getcwd()\<close> returns.\<close>

definition abspath :: "string \<Rightarrow> string \<Rightarrow> string" where
  "abspath cwd path = normpath (if isabs path then path else join cwd path)"

text \<open>
  \<open>os.path.dirname\<close>: everything up to the last slash, without trailing slashes unless it
  consists of slashes only.
\<close>

definition dirname :: "string \<Rightarrow> string" where
  "dirname p =
     (let i = length p - length (takeWhile (\<lambda>c. c \<noteq> CHR ''/'') (rev p));
          head = take i p
      in if head \<noteq> [] \<and> head \<noteq> replicate (length head) CHR ''/''
         then rev (dropWhile (\<lambda>c. c = CHR ''/'') (rev head))
         else head)"

section \<open>The filesystem\<close>

text \<open>
  The filesystem is the tree below the root directory. A directory lists its entries
  in the order in which the system enumerates them. \<open>Special\<close> is an entry that is
  neither a regular file nor a directory. Symbolic links and permissions are not
  modelled. A path is resolved from the root, component by component; empty components
  and \<open>.\<close> are skipped, and \<open>..\<close> is not interpreted (the program hands over paths that
  \<open>abspath\<close> has normalised).
\<close>

datatype fsnode = RegFile | Special | Dir "(string \<times> fsnode) list"

definition components :: "string \<Rightarrow> string list" where
  "components p = filter (\<lambda>c. c \<noteq> [] \<and> c \<noteq> ''.'') (split_on CHR ''/'' p)"

fun fs_lookup :: "fsnode \<Rightarrow> string list \<Rightarrow> fsnode option" where
  "fs_lookup node [] = Some node"
| "fs_lookup (Dir entries) (c # cs) =
     (case map_of entries c of
        None \<Rightarrow> None
      | Some child \<Rightarrow> fs_lookup child cs)"
| "fs_lookup RegFile (c # cs) = None"
| "fs_lookup Special (c # cs) = None"

fun is_Dir :: "fsnode \<Rightarrow> bool" where
  "is_Dir (Dir entries) = True"
| "is_Dir RegFile = False"
| "is_Dir Special = False"

definition isfile :: "fsnode \<Rightarrow> string \<Rightarrow> bool" where
  "isfile fs p = (fs_lookup fs (components p) = Some RegFile)"

definition isdir :: "fsnode \<Rightarrow> string \<Rightarrow> bool" where
  "isdir fs p = (case fs_lookup fs (components p) of Some node \<Rightarrow> is_Dir node | None \<Rightarrow> False)"

text \<open>
  \<open>os.walk(top)\<close>, top-down: the triple of the directory itself, then the walks of its
  subdirectories in listing order. Walking something that is not a directory yields
  nothing.
\<close>

fun walk :: "string \<Rightarrow> fsnode \<Rightarrow> (string \<times> string list \<times> string list) list" where
  "walk top_dir (Dir entries) =
     (top_dir, map fst (filter (\<lambda>e. is_Dir (snd e)) entries),
           map fst (filter (\<lambda>e. \<not> is_Dir (snd e)) entries))
     # concat (map (\<lambda>e. walk (join top_dir (fst e)) (snd e)) (filter (\<lambda>e. is_Dir (snd e)) entries))"
| "walk top_dir RegFile = []"
| "walk top_dir Special = []"

section \<open>getSourceAndDestinationLists (lines 252-321)\<close>

record plan =
  sourceDirs :: "string list"
  sourceFiles :: "string list"
  destinationDirs :: "string list"
  destinationFiles :: "string list"
  stdout :: "string list"
  stderr :: "string list"

text \<open>The loop of lines 302-311 over the triples of the walk.\<close>

fun walkLoop :: "string \<Rightarrow> nat \<Rightarrow> (string \<times> string list \<times> string list) list \<Rightarrow> plan \<Rightarrow> plan" where
  "walkLoop destinationPath parentlen [] st = st"
| "walkLoop destinationPath parentlen ((root, dirs, files) # rest) st =
     walkLoop destinationPath parentlen rest
       (st\<lparr>sourceDirs := sourceDirs st @ [root],
           sourceFiles := sourceFiles st @ map (\<lambda>file. root @ ''/'' @ file) files,
           destinationDirs := destinationDirs st @ [destinationPath @ drop parentlen root],
           destinationFiles := destinationFiles st
             @ map (\<lambda>file. destinationPath @ drop parentlen root @ ''/'' @ file) files\<rparr>)"

text \<open>The body of the loop of lines 291-319 for one source.\<close>

definition expandSource :: "fsnode \<Rightarrow> string \<Rightarrow> bool \<Rightarrow> bool \<Rightarrow> string \<Rightarrow> plan \<Rightarrow> plan" where
  "expandSource fs destinationPath verbose quiet source st =
     (let parent = dirname source;
          parentlen = length parent
      in if isfile fs source then
           st\<lparr>sourceFiles := sourceFiles st @ [source],
              destinationFiles := destinationFiles st @ [destinationPath @ drop parentlen source]\<rparr>
         else if isdir fs source then
           (case fs_lookup fs (components source) of
              Some node \<Rightarrow> walkLoop destinationPath parentlen (walk source node) st
            | None \<Rightarrow> st)
         else
           st\<lparr>stderr := stderr st
                 @ (if \<not> quiet then [''ERROR: '' @ [CHR 0x27] @ source @ [CHR 0x27] @ '' does not exist!'']
                    else []),
              stdout := stdout st @ (if verbose then [''Proceeding anyway. . .''] else [])\<rparr>)"

fun expandLoop :: "fsnode \<Rightarrow> string \<Rightarrow> bool \<Rightarrow> bool \<Rightarrow> string list \<Rightarrow> plan \<Rightarrow> plan" where
  "expandLoop fs destinationPath verbose quiet [] st = st"
| "expandLoop fs destinationPath verbose quiet (source # sourcePaths) st =
     expandLoop fs destinationPath verbose quiet sourcePaths
       (expandSource fs destinationPath verbose quiet source st)"

definition emptyPlan :: plan where
  "emptyPlan = \<lparr>sourceDirs = [], sourceFiles = [], destinationDirs = [],
                destinationFiles = [], stdout = [], stderr = []\<rparr>"

definition getSourceAndDestinationLists ::
    "string \<Rightarrow> fsnode \<Rightarrow> string list \<Rightarrow> string \<Rightarrow> bool \<Rightarrow> bool \<Rightarrow> plan" where
  "getSourceAndDestinationLists cwd fs sourceLocs destinationLoc verbose quiet =
     (let sourcePaths = map (abspath cwd) sourceLocs;
          destinationPath = abspath cwd destinationLoc
      in expandLoop fs destinationPath verbose quiet sourcePaths emptyPlan)"

section \<open>findDeviceLocation (lines 128-219) and findDeviceLocations (fatsort.py, lines 23-118)\<close>

subsection \<open>str.strip, str.split(), int(), list indexing\<close>

definition is_space :: "char \<Rightarrow> bool" where
  "is_space c = (c \<in> set [CHR 0x09, CHR 0x0A, CHR 0x0B, CHR 0x0C, CHR 0x0D,
                            CHR 0x1C, CHR 0x1D, CHR 0x1E, CHR 0x1F, CHR 0x20])"

definition rstrip :: "string \<Rightarrow> string" where
  "rstrip s = rev (dropWhile is_space (rev s))"

definition strip :: "string \<Rightarrow> string" where
  "strip s = dropWhile is_space (rstrip s)"

text \<open>\<open>s.split()\<close>: the maximal runs of characters that are not whitespace.\<close>

fun split_ws :: "string \<Rightarrow> string \<Rightarrow> string list" where
  "split_ws cur [] = (if cur = [] then [] else [cur])"
| "split_ws cur (c # cs) =
     (if is_space c then (if cur = [] then split_ws [] cs else cur # split_ws [] cs)
      else split_ws (cur @ [c]) cs)"

text \<open>\<open>bytes.decode('ascii')\<close> raises on a byte above 127.\<close>

definition decode_ascii :: "string \<Rightarrow> error + string" where
  "decode_ascii bs = (if list_ex (\<lambda>c. 128 \<le> (of_char c :: nat)) bs then Inl UnicodeDecodeError else Inr bs)"

definition digit_val :: "char \<Rightarrow> int option" where
  "digit_val c = map_of (zip ''0123456789'' [0, 1, 2, 3, 4, 5, 6, 7, 8, 9]) c"

text \<open>
  \<open>int(s)\<close> in base ten: surrounding whitespace is dropped, a sign may lead, and single
  underscores may stand between digits. \<open>None\<close> is the ValueError. For an ASCII string
  \<open>int\<close> drops the six whitespace characters of C only, not the separators 0x1C to 0x1F
  that \<open>str.strip\<close> drops.
\<close>

definition is_c_space :: "char \<Rightarrow> bool" where
  "is_c_space c = (c \<in> set [CHR 0x09, CHR 0x0A, CHR 0x0B, CHR 0x0C, CHR 0x0D, CHR 0x20])"

fun int_digits :: "int \<Rightarrow> string \<Rightarrow> int option" where
  "int_digits acc [] = Some acc"
| "int_digits acc (c # cs) =
     (case digit_val c of
        Some d \<Rightarrow> int_digits (10 * acc + d) cs
      | None \<Rightarrow>
          (if c = CHR ''_'' then
             (case cs of
                [] \<Rightarrow> None
              | c' # cs' \<Rightarrow>
                  (case digit_val c' of
                     Some d \<Rightarrow> int_digits (10 * acc + d) cs'
                   | None \<Rightarrow> None))
           else None))"

definition int_unsigned :: "string \<Rightarrow> int option" where
  "int_unsigned s =
     (case s of
        [] \<Rightarrow> None
      | c # cs \<Rightarrow> (case digit_val c of Some d \<Rightarrow> int_digits d cs | None \<Rightarrow> None))"

definition py_int :: "string \<Rightarrow> int option" where
  "py_int s =
     (case dropWhile is_c_space (rev (dropWhile is_c_space (rev s))) of
        [] \<Rightarrow> None
      | c # cs \<Rightarrow>
          (if c = CHR ''-'' then map_option uminus (int_unsigned cs)
           else if c = CHR ''+'' then int_unsigned cs
           else int_unsigned (c # cs)))"

text \<open>\<open>xs[i]\<close>: a negative index counts from the end, IndexError out of range.\<close>

definition getitem :: "'a list \<Rightarrow> int \<Rightarrow> error + 'a" where
  "getitem xs i =
     (if 0 \<le> i \<and> i < int (length xs) then Inr (xs ! nat i)
      else if i < 0 \<and> - int (length xs) \<le> i then Inr (xs ! nat (int (length xs) + i))
      else Inl IndexError)"

subsection \<open>The resolver\<close>

text \<open>
  The loop of lines 175-181: the first entry whose mount location is a string prefix of
  the destination. An entry with fewer than two fields raises IndexError when the loop
  reaches it.
\<close>

fun matchLoop :: "string \<Rightarrow> string list list \<Rightarrow> error + (string \<times> string) option" where
  "matchLoop destination [] = Inr None"
| "matchLoop destination (entry # rest) =
     (case getitem entry 0 of
        Inl e \<Rightarrow> Inl e
      | Inr deviceLoc \<Rightarrow>
          (case getitem entry 1 of
             Inl e \<Rightarrow> Inl e
           | Inr mountLoc \<Rightarrow>
               (if startswith destination mountLoc then Inr (Some (deviceLoc, mountLoc))
                else matchLoop destination rest)))"

text \<open>
  Lines 187-219: the interactive choice. \<open>keyboard\<close> holds the lines standard input still
  has; the result is the pair (\<open>([], [])\<close> is the pair of empty strings) with the lines written to
  standard error. The list of
  devices and the question written to standard output are not recorded.
\<close>

definition chooseDevice :: "string list \<Rightarrow> string list list \<Rightarrow> bool \<Rightarrow> bool \<Rightarrow> string list \<Rightarrow>
    error + ((string \<times> string) \<times> string list)" where
  "chooseDevice deviceList deviceListSep noninteractive quiet keyboard =
     (if \<not> noninteractive then
        (let deviceListEnum_len = int (length deviceList) + 1 in
         case keyboard of
           [] \<Rightarrow> Inl EOFError
         | line # _ \<Rightarrow>
             (case py_int line of
                None \<Rightarrow> Inl ValueError
              | Some ans \<Rightarrow>
                  (if ans = 0 then Inr (([], []), [])
                   else if ans > deviceListEnum_len - 1 then
                     Inr (([], []), if \<not> quiet then [''ERROR: invalid index''] else [])
                   else
                     (case getitem deviceListSep (ans - 1) of
                        Inl e \<Rightarrow> Inl e
                      | Inr entry \<Rightarrow>
                          (case getitem entry 0 of
                             Inl e \<Rightarrow> Inl e
                           | Inr deviceLoc \<Rightarrow>
                               (case getitem entry 1 of
                                  Inl e \<Rightarrow> Inl e
                                | Inr mountLoc \<Rightarrow> Inr ((deviceLoc, mountLoc), [])))))))
      else Inr (([], []), []))"

text \<open>
  Lines 160-219, which the two files share: \<open>deviceString\<close> is the output of the mount
  query after decoding and stripping.
\<close>

definition resolveDevice :: "string \<Rightarrow> string \<Rightarrow> bool \<Rightarrow> bool \<Rightarrow> string list \<Rightarrow>
    error + ((string \<times> string) \<times> string list)" where
  "resolveDevice destination deviceString noninteractive quiet keyboard =
     (if deviceString = [] then Inr (([], []), [])
      else
        let deviceList = split_on CHR 0x0A deviceString;
            deviceListSep = map (split_ws []) deviceList
        in case matchLoop destination deviceListSep of
             Inl e \<Rightarrow> Inl e
           | Inr (Some found) \<Rightarrow> Inr (found, [])
           | Inr None \<Rightarrow> chooseDevice deviceList deviceListSep noninteractive quiet keyboard)"

text \<open>
  \<open>mountOutput\<close> is what the mount query writes, one line for each mounted FAT volume
  with its device and its mount location.
\<close>

definition findDeviceLocation :: "string \<Rightarrow> string \<Rightarrow> string \<Rightarrow> bool \<Rightarrow> bool \<Rightarrow> string list \<Rightarrow>
    error + ((string \<times> string) \<times> string list)" where
  "findDeviceLocation cwd mountOutput destination noninteractive quiet keyboard =
     (case decode_ascii mountOutput of
        Inl e \<Rightarrow> Inl e
      | Inr decoded \<Rightarrow>
          resolveDevice (abspath cwd destination) (strip decoded) noninteractive quiet keyboard)"

definition findDeviceLocations :: "string \<Rightarrow> string \<Rightarrow> string \<Rightarrow> bool \<Rightarrow> bool \<Rightarrow> string list \<Rightarrow>
    error + ((string \<times> string) \<times> string list)" where
  "findDeviceLocations cwd mountOutput destinationPath noninteractive quiet keyboard =
     (case decode_ascii mountOutput of
        Inl e \<Rightarrow> Inl e
      | Inr decoded \<Rightarrow>
          resolveDevice (abspath cwd destinationPath) (rstrip decoded) noninteractive quiet keyboard)"

text \<open>The mount query's output for a mount table given as (device, mount location) pairs.\<close>

definition mountLines :: "(string \<times> string) list \<Rightarrow> string" where
  "mountLines table = concat (map (\<lambda>(dev, mnt). dev @ '' '' @ mnt @ [CHR 0x0A]) table)"

section \<open>createDirsAndParents (lines 408-469)\<close>

subsection \<open>os.remove and os.makedirs on the tree\<close>




subsection \<open>The loop\<close>

record world =
  tree :: fsnode
  keys :: "string list"
  said :: "string list"
  errs :: "string list"









section \<open>fatsortAvailable (lines 48-54) and its use (lines 620-634)\<close>

text \<open>
  \<open>exitCode\<close> is the exit status of \<open>bash -c "type fatsort"\<close>, which is 0 when the shell
  finds fatsort and not 0 when it does not; \<open>typeStatus\<close> is that rule.
\<close>

definition typeStatus :: "bool \<Rightarrow> int" where
  "typeStatus found = (if found then 0 else 1)"

definition fatsortAvailable :: "int \<Rightarrow> bool" where
  "fatsortAvailable exitCode = (exitCode \<noteq> 0)"

datatype outcome = Continue | Exit int

text \<open>
  Lines 621-634 of the driver: the outcome with the lines written to standard output
  and to standard error.
\<close>

definition confirmFatsort :: "bool \<Rightarrow> bool \<Rightarrow> bool \<Rightarrow> int \<Rightarrow> outcome \<times> string list \<times> string list" where
  "confirmFatsort no_fatsort verbose quiet exitCode =
     (if \<not> no_fatsort then
        (let checking = (if verbose then [''Checking if fatsort is available . . .''] else []) in
         if fatsortAvailable exitCode then
           (Continue, checking @ (if verbose then [''Success: fatsort is available''] else []), [])
         else
           (Exit 1, checking @ [''Aborting usb-fatmove''],
            if \<not> quiet then [''ERROR: fatsort not found!''] else []))
      else (Continue, [], []))"

section \<open>Notions for the statements and their proofs\<close>

text \<open>
  A well-formed tree: the names in a directory are distinct, not empty, without a slash,
  and neither \<open>.\<close> nor \<open>..\<close>.
\<close>

definition valid_name :: "string \<Rightarrow> bool" where
  "valid_name n = (n \<noteq> [] \<and> CHR ''/'' \<notin> set n \<and> n \<noteq> ''.'' \<and> n \<noteq> ''..'')"

fun wf_fs :: "fsnode \<Rightarrow> bool" where
  "wf_fs (Dir entries) =
     (distinct (map fst entries) \<and> list_all (\<lambda>e. valid_name (fst e) \<and> wf_fs (snd e)) entries)"
| "wf_fs RegFile = True"
| "wf_fs Special = True"

text \<open>
  What one source adds to the source lists, and the rule that gives a destination: the
  destination root followed by the path without its first \<open>len(dirname(source))\<close>
  characters.
\<close>

definition newDirs :: "fsnode \<Rightarrow> string \<Rightarrow> string list" where
  "newDirs fs source =
     (if isfile fs source then []
      else if isdir fs source then
        (case fs_lookup fs (components source) of
           Some node \<Rightarrow> map fst (walk source node)
         | None \<Rightarrow> [])
      else [])"

definition newFiles :: "fsnode \<Rightarrow> string \<Rightarrow> string list" where
  "newFiles fs source =
     (if isfile fs source then [source]
      else if isdir fs source then
        (case fs_lookup fs (components source) of
           Some node \<Rightarrow> concat (map (\<lambda>t. map (\<lambda>file. fst t @ ''/'' @ file) (snd (snd t))) (walk source node))
         | None \<Rightarrow> [])
      else [])"

definition cut :: "string \<Rightarrow> string \<Rightarrow> string \<Rightarrow> string" where
  "cut destinationPath source path = destinationPath @ drop (length (dirname source)) path"

text \<open>The path of what lies the names \<open>cs\<close> below the directory \<open>top_dir\<close>, as the walk forms it.\<close>

definition descend :: "string \<Rightarrow> string list \<Rightarrow> string" where
  "descend top_dir cs = foldl join top_dir cs"

text \<open>
  What the filter decides for a file in a run that asks nothing, and the positions,
  counted from \<open>n\<close>, of the files of a list that it does not keep.
\<close>

definition keepsOption :: "int option \<Rightarrow> bool" where
  "keepsOption removeOption = (removeOption = Some PROMPT \<or> removeOption = Some NO)"

definition keeps :: "settings \<Rightarrow> string \<Rightarrow> bool" where
  "keeps cfg f =
     (if endswith_any (lower f) audioExt then True
      else if endswith_any (lower f) imageExt then keepsOption (cfg ''RemoveCue'')
      else if endswith_any (lower f) logExt then keepsOption (cfg ''RemoveLog'')
      else if endswith_any (lower f) cueExt then keepsOption (cfg ''RemoveCue'')
      else if endswith_any (lower f) m3uExt then keepsOption (cfg ''RemoveM4U'')
      else keepsOption (cfg ''RemoveOtherFiletypes''))"

fun marks :: "settings \<Rightarrow> nat \<Rightarrow> string list \<Rightarrow> nat list" where
  "marks cfg n [] = []"
| "marks cfg n (f # fs) = (if keeps cfg f then [] else [n]) @ marks cfg (Suc n) fs"





text \<open>
  An index list is safe for a list of length \<open>n\<close> when popping its indices from the last
  to the first never leaves the list: the index at position \<open>t\<close> is popped after the
  \<open>length idxs - t - 1\<close> later ones.
\<close>

definition safe :: "nat \<Rightarrow> nat list \<Rightarrow> bool" where
  "safe n idxs = (\<forall>t < length idxs. idxs ! t + (length idxs - t) \<le> n)"

text \<open>What one file may do to the index list: nothing, or one index not beyond its position.\<close>

definition marked :: "bool \<Rightarrow> nat \<Rightarrow> nat list \<Rightarrow> error + (nat list \<times> string list) \<Rightarrow> bool" where
  "marked nonint pos idxs res =
     (case res of
        Inl e \<Rightarrow> e = EOFError \<and> \<not> nonint
      | Inr (idxs', kb') \<Rightarrow> idxs' = idxs \<or> (\<exists>i\<le>pos. idxs' = idxs @ [i]))"

section \<open>Concrete inputs\<close>

text \<open>
  A settings section with every key of the config file; \<open>images\<close>, \<open>logs\<close>, \<open>cues\<close>,
  \<open>playlists\<close> and \<open>others\<close> are the values stored for the five removal settings.
\<close>

definition removalSettings :: "int \<Rightarrow> int \<Rightarrow> int \<Rightarrow> int \<Rightarrow> int \<Rightarrow> settings" where
  "removalSettings images logs cues playlists others =
     map_of [(''OverwriteDestinationFiles'', NO), (''RemoveImages'', images),
             (''RemoveLog'', logs), (''RemoveCue'', cues), (''RemoveM4U'', playlists),
             (''RemoveOtherFiletypes'', others), (''UpdateUserCredentials'', NO)]"

definition twoVolumes :: "(string \<times> string) list" where
  "twoVolumes = [(''/dev/sdb1'', ''/mnt/usb''), (''/dev/sdc1'', ''/mnt/stick'')]"

definition musicTree :: fsnode where
  "musicTree =
     Dir [(''a.mp3'', RegFile),
          (''a'', Dir [(''b'', Dir [(''c'', Dir [(''x.mp3'', RegFile),
                                                 (''art'', Dir [(''y.jpg'', RegFile)])])]),
                       (''t.mp3'', RegFile)]),
          (''mnt'', Dir [(''d'', Dir [])])]"





section \<open>Lemmas about the filter\<close>

lemma endswith_both:
  assumes "endswith s a" "endswith s b" "length a \<le> length b"
  shows "endswith b a"
proof -
  from assms have la: "length a \<le> length s" and lb: "length b \<le> length s"
    and a: "drop (length s - length a) s = a" and b: "drop (length s - length b) s = b"
    by (auto simp: endswith_def)
  have "drop (length b - length a) b = drop (length b - length a) (drop (length s - length b) s)"
    using b by simp
  also have "\<dots> = drop (length s - length a) s"
    using assms(3) lb by simp
  finally show ?thesis using a assms(3) by (simp add: endswith_def)
qed

lemma endswith_any_disjoint:
  assumes "list_all (\<lambda>a. list_all (\<lambda>b. \<not> endswith a b \<and> \<not> endswith b a) bs) as"
    and "endswith_any s as"
  shows "\<not> endswith_any s bs"
proof
  assume "endswith_any s bs"
  then obtain b where b: "b \<in> set bs" "endswith s b"
    by (auto simp: endswith_any_def list_ex_iff)
  from assms(2) obtain a where a: "a \<in> set as" "endswith s a"
    by (auto simp: endswith_any_def list_ex_iff)
  from assms(1) a(1) b(1) have no: "\<not> endswith a b" "\<not> endswith b a"
    by (auto simp: list_all_iff)
  show False
  proof (cases "length a \<le> length b")
    case True
    with endswith_both[OF a(2) b(2)] no show False by simp
  next
    case False
    then have "length b \<le> length a" by simp
    with endswith_both[OF b(2) a(2)] no show False by simp
  qed
qed

lemma groups_exclusive:
  "endswith_any s imageExt \<Longrightarrow> \<not> endswith_any s logExt"
  "endswith_any s imageExt \<Longrightarrow> \<not> endswith_any s cueExt"
  "endswith_any s imageExt \<Longrightarrow> \<not> endswith_any s m3uExt"
  "endswith_any s logExt \<Longrightarrow> \<not> endswith_any s cueExt"
  "endswith_any s logExt \<Longrightarrow> \<not> endswith_any s m3uExt"
  "endswith_any s cueExt \<Longrightarrow> \<not> endswith_any s m3uExt"
  by (erule endswith_any_disjoint[rotated],
      simp add: imageExt_def logExt_def cueExt_def m3uExt_def endswith_def)+

lemma index_from_bounds:
  "index_from n xs x = Some i \<Longrightarrow> n \<le> i \<and> i < n + length xs"
proof (induction xs arbitrary: n)
  case Nil
  then show ?case by simp
next
  case (Cons y ys)
  show ?case
  proof (cases "y = x")
    case True
    with Cons.prems show ?thesis by simp
  next
    case False
    with Cons.prems have "index_from (Suc n) ys x = Some i" by simp
    from Cons.IH[OF this] show ?thesis by simp
  qed
qed

lemma index_from_first:
  "j < length xs \<Longrightarrow> xs ! j = x \<Longrightarrow> \<exists>i. index_from n xs x = Some i \<and> i \<le> n + j"
proof (induction xs arbitrary: n j)
  case Nil
  then show ?case by simp
next
  case (Cons y ys)
  show ?case
  proof (cases "y = x")
    case True
    then show ?thesis by simp
  next
    case False
    with Cons.prems obtain k where k: "j = Suc k" by (cases j) auto
    with Cons.prems have "k < length ys" "ys ! k = x" by auto
    from Cons.IH[OF this, of "Suc n"] False k show ?thesis by auto
  qed
qed

lemma index_first:
  "j < length xs \<Longrightarrow> \<exists>i. index xs (xs ! j) = Inr i \<and> i \<le> j"
  using index_from_first[of j xs "xs ! j" 0] by (auto simp: index_def)

lemma safe_mono: "safe n idxs \<Longrightarrow> n \<le> m \<Longrightarrow> safe m idxs"
  by (auto simp: safe_def)

lemma safe_snoc: "safe n idxs \<Longrightarrow> i \<le> n \<Longrightarrow> safe (Suc n) (idxs @ [i])"
  by (auto simp: safe_def nth_append Suc_diff_le less_Suc_eq)

lemma safe_snocD:
  assumes "safe n (idxs @ [i])"
  shows "i < n" and "safe (n - 1) idxs"
proof -
  from assms have all: "\<And>t. t < Suc (length idxs) \<Longrightarrow> (idxs @ [i]) ! t + (Suc (length idxs) - t) \<le> n"
    by (simp add: safe_def)
  from all[of "length idxs"] show "i < n" by simp
  show "safe (n - 1) idxs"
    unfolding safe_def
  proof (intro allI impI)
    fix t assume t: "t < length idxs"
    with all[of t] have "idxs ! t + (Suc (length idxs) - t) \<le> n"
      by (simp add: nth_append)
    with t show "idxs ! t + (length idxs - t) \<le> n - 1" by simp
  qed
qed

lemma pop_zip:
  "pop i xs = Inr xs' \<Longrightarrow> pop i ys = Inr ys' \<Longrightarrow>
     length xs' = length xs - 1 \<and> length ys' = length ys - 1 \<and> subseq (zip xs' ys') (zip xs ys)"
proof -
  assume px: "pop i xs = Inr xs'" and py: "pop i ys = Inr ys'"
  then have i: "i < length xs" "i < length ys"
    and xs': "xs' = take i xs @ drop (Suc i) xs" and ys': "ys' = take i ys @ drop (Suc i) ys"
    by (auto simp: pop_def split: if_splits)
  let ?zs = "zip xs ys"
  have iz: "i < length ?zs" using i by simp
  have "zip xs' ys' = take i ?zs @ drop (Suc i) ?zs"
    using i by (simp add: xs' ys' take_zip drop_zip)
  moreover have "subseq (take i ?zs @ drop (Suc i) ?zs) (take i ?zs @ ?zs ! i # drop (Suc i) ?zs)"
    by (intro list_emb_append_mono subseq_order.refl list_emb_Cons) 
  moreover have "take i ?zs @ ?zs ! i # drop (Suc i) ?zs = ?zs"
    using id_take_nth_drop[OF iz] by simp
  ultimately have "subseq (zip xs' ys') ?zs" by simp
  then show ?thesis using i by (simp add: xs' ys')
qed

lemma popLoop_safe:
  "safe n idxs \<Longrightarrow> length src = n \<Longrightarrow> length dst = n \<Longrightarrow>
   \<exists>src' dst'. popLoop (rev idxs) (src, dst) = Inr (src', dst')
      \<and> length src' = length dst' \<and> subseq (zip src' dst') (zip src dst)"
proof (induction idxs arbitrary: n src dst rule: rev_induct)
  case Nil
  then show ?case by simp
next
  case (snoc i idxs)
  from safe_snocD[OF snoc.prems(1)] have i: "i < n" and s: "safe (n - 1) idxs" .
  from i snoc.prems obtain src1 dst1 where p: "pop i src = Inr src1" "pop i dst = Inr dst1"
    by (auto simp: pop_def)
  from pop_zip[OF p] snoc.prems have l: "length src1 = n - 1" "length dst1 = n - 1"
    and sub: "subseq (zip src1 dst1) (zip src dst)" by auto
  from snoc.IH[OF s l] obtain src' dst' where r: "popLoop (rev idxs) (src1, dst1) = Inr (src', dst')"
    "length src' = length dst'" "subseq (zip src' dst') (zip src1 dst1)" by blast
  from r(3) sub have "subseq (zip src' dst') (zip src dst)" by (rule subseq_order.trans)
  with p r show ?case by simp
qed

lemma prompt_error: "prompt kb = Inl e \<Longrightarrow> e = EOFError"
  by (induction kb) (auto split: sum.splits)

lemma keepFile_error: "keepFile opt nonint kb = Inl e \<Longrightarrow> e = EOFError \<and> \<not> nonint"
  by (auto simp: keepFile_def split: if_splits sum.splits dest: prompt_error)

lemma extLoop_no_match:
  "list_all (\<lambda>g. \<not> endswith_any (lower file) (fst g)) exts \<Longrightarrow>
   extLoop exts full nonint file st = Inr st"
proof (induction exts arbitrary: st)
  case Nil
  then show ?case by simp
next
  case (Cons g exts)
  then show ?case by (cases g; cases st) simp
qed

lemma extLoop_marked:
  assumes "pos < length full"
    and "length (filter (\<lambda>g. endswith_any (lower (full ! pos)) (fst g)) exts) \<le> 1"
  shows "marked nonint pos idxs (extLoop exts full nonint (full ! pos) (idxs, kb))"
  using assms(2)
proof (induction exts)
  case Nil
  then show ?case by (simp add: marked_def)
next
  case (Cons g exts)
  obtain ext opt where g: "g = (ext, opt)" by (cases g)
  show ?case
  proof (cases "endswith_any (lower (full ! pos)) ext")
    case False
    with Cons g show ?thesis by simp
  next
    case True
    with Cons.prems g have "filter (\<lambda>g. endswith_any (lower (full ! pos)) (fst g)) exts = []"
      by simp
    then have rest: "list_all (\<lambda>g. \<not> endswith_any (lower (full ! pos)) (fst g)) exts"
      by (simp add: filter_empty_conv list_all_iff)
    from index_first[OF assms(1)] obtain i where i: "index full (full ! pos) = Inr i" "i \<le> pos"
      by blast
    show ?thesis
    proof (cases "keepFile opt nonint kb")
      case (Inl e)
      with True g keepFile_error[OF Inl] show ?thesis by (simp add: marked_def)
    next
      case (Inr r)
      obtain keep kb' where r: "r = (keep, kb')" by (cases r)
      show ?thesis
        using True g Inr r i extLoop_no_match[OF rest]
        by (cases keep) (auto simp: marked_def)
    qed
  qed
qed

lemma extensionList_one_match:
  "length (filter (\<lambda>g. endswith_any s (fst g)) (extensionList cfg)) \<le> 1"
  using groups_exclusive[of s]
  by (auto simp: extensionList_def Let_def)

lemma markFile_marked:
  assumes "pos < length full"
  shows "marked nonint pos idxs (markFile cfg full nonint (full ! pos) (idxs, kb))"
proof -
  from index_first[OF assms] obtain i where i: "index full (full ! pos) = Inr i" "i \<le> pos"
    by blast
  show ?thesis
  proof (cases "endswith_any (lower (full ! pos)) audioExt")
    case True
    then show ?thesis by (simp add: markFile_def marked_def)
  next
    case audio: False
    show ?thesis
    proof (cases "endswith_any (lower (full ! pos)) nonAudioExt")
      case True
      with audio extLoop_marked[OF assms extensionList_one_match] show ?thesis
        by (simp add: markFile_def)
    next
      case False
      show ?thesis
      proof (cases "keepFile (cfg ''RemoveOtherFiletypes'') nonint kb")
        case (Inl e)
        with audio False keepFile_error[OF Inl] show ?thesis
          by (simp add: markFile_def marked_def)
      next
        case (Inr r)
        obtain keep kb' where r: "r = (keep, kb')" by (cases r)
        show ?thesis using audio False Inr r i
          by (cases keep) (auto simp: markFile_def marked_def)
      qed
    qed
  qed
qed

lemma markLoop_safe:
  "full = pre @ files \<Longrightarrow> safe (length pre) idxs \<Longrightarrow>
   (case markLoop cfg full nonint files (idxs, kb) of
      Inl e \<Rightarrow> e = EOFError \<and> \<not> nonint
    | Inr (idxs', kb') \<Rightarrow> safe (length full) idxs')"
proof (induction files arbitrary: pre idxs kb)
  case Nil
  then show ?case by simp
next
  case (Cons f files)
  have pos: "length pre < length full" and f: "full ! length pre = f"
    using Cons.prems(1) by auto
  from markFile_marked[OF pos, of nonint idxs cfg kb] f
  have m: "marked nonint (length pre) idxs (markFile cfg full nonint f (idxs, kb))" by simp
  show ?case
  proof (cases "markFile cfg full nonint f (idxs, kb)")
    case (Inl e)
    with m show ?thesis by (simp add: marked_def)
  next
    case (Inr r)
    obtain idxs1 kb1 where r: "r = (idxs1, kb1)" by (cases r)
    from m Inr r have "idxs1 = idxs \<or> (\<exists>i\<le>length pre. idxs1 = idxs @ [i])"
      by (simp add: marked_def)
    with Cons.prems(2) have s1: "safe (length (pre @ [f])) idxs1"
      by (auto intro: safe_snoc safe_mono)
    have "full = (pre @ [f]) @ files" using Cons.prems(1) by simp
    from Cons.IH[OF this s1, of kb1] Inr r show ?thesis by simp
  qed
qed

lemma filterOutExtensions_paired:
  assumes "length src = length dst"
  shows "case filterOutExtensions src dst cfg nonint kb of
           Inl e \<Rightarrow> e = EOFError \<and> \<not> nonint
         | Inr ((src', dst'), kb') \<Rightarrow>
             length src' = length dst' \<and> subseq (zip src' dst') (zip src dst)"
proof (cases "markLoop cfg src nonint src ([], kb)")
  case (Inl e)
  with markLoop_safe[where full=src and pre="[]" and files=src and idxs="[]" and cfg=cfg and nonint=nonint and kb=kb] show ?thesis
    by (simp add: filterOutExtensions_def safe_def)
next
  case (Inr r)
  obtain idxs kb' where r: "r = (idxs, kb')" by (cases r)
  with Inr markLoop_safe[where full=src and pre="[]" and files=src and idxs="[]" and cfg=cfg and nonint=nonint and kb=kb] have "safe (length src) idxs"
    by (simp add: safe_def)
  from popLoop_safe[OF this refl assms[symmetric]] Inr r show ?thesis
    by (auto simp: filterOutExtensions_def)
qed

text \<open>The settings enter through four keys only.\<close>

lemma extensionList_other_key:
  "k \<notin> {''RemoveCue'', ''RemoveLog'', ''RemoveM4U'', ''RemoveOtherFiletypes''} \<Longrightarrow>
   extensionList (cfg(k := v)) = extensionList cfg"
  by (auto simp: extensionList_def)

lemma markFile_other_key:
  "k \<notin> {''RemoveCue'', ''RemoveLog'', ''RemoveM4U'', ''RemoveOtherFiletypes''} \<Longrightarrow>
   markFile (cfg(k := v)) full nonint f st = markFile cfg full nonint f st"
  using extensionList_other_key[of k cfg v] by (auto simp: markFile_def)

lemma markLoop_other_key:
  "k \<notin> {''RemoveCue'', ''RemoveLog'', ''RemoveM4U'', ''RemoveOtherFiletypes''} \<Longrightarrow>
   markLoop (cfg(k := v)) full nonint files st = markLoop cfg full nonint files st"
  by (induction files arbitrary: st) (simp_all add: markFile_other_key split: sum.splits)

lemma filterOutExtensions_reads_four_keys:
  "k \<notin> {''RemoveCue'', ''RemoveLog'', ''RemoveM4U'', ''RemoveOtherFiletypes''} \<Longrightarrow>
   filterOutExtensions src dst (cfg(k := v)) nonint kb = filterOutExtensions src dst cfg nonint kb"
  by (simp add: filterOutExtensions_def markLoop_other_key)

text \<open>
  On a list without repeated paths a run that asks nothing removes exactly the files
  the settings do not keep, so audio files stay and a second run changes nothing.
\<close>

lemma index_from_distinct:
  "distinct xs \<Longrightarrow> j < length xs \<Longrightarrow> index_from n xs (xs ! j) = Some (n + j)"
proof (induction xs arbitrary: n j)
  case Nil
  then show ?case by simp
next
  case (Cons y ys)
  show ?case
  proof (cases j)
    case 0
    then show ?thesis by simp
  next
    case (Suc k)
    with Cons.prems have k: "k < length ys" and d: "distinct ys" and ne: "y \<noteq> ys ! k"
      by (auto simp: in_set_conv_nth)
    from Cons.IH[OF d k, of "Suc n"] Suc ne show ?thesis by simp
  qed
qed

lemma index_distinct: "distinct xs \<Longrightarrow> j < length xs \<Longrightarrow> index xs (xs ! j) = Inr j"
  using index_from_distinct[of xs j 0] by (simp add: index_def)

lemma keepFile_noninteractive: "keepFile opt True kb = Inr (keepsOption opt, kb)"
  by (simp add: keepFile_def keepsOption_def)

lemma extLoop_noninteractive:
  assumes "index full f = Inr pos"
    and "endswith_any (lower f) nonAudioExt"
    and "\<not> endswith_any (lower f) audioExt"
  shows "extLoop (extensionList cfg) full True f (idxs, kb)
       = Inr (if keeps cfg f then idxs else idxs @ [pos], kb)"
  using assms groups_exclusive[of "lower f"]
  by (auto simp: extensionList_def Let_def keeps_def keepFile_noninteractive nonAudioExt_def
      endswith_any_def)

lemma markFile_noninteractive:
  assumes "index full f = Inr pos"
  shows "markFile cfg full True f (idxs, kb) = Inr (if keeps cfg f then idxs else idxs @ [pos], kb)"
proof (cases "endswith_any (lower f) audioExt")
  case True
  then show ?thesis by (simp add: markFile_def keeps_def)
next
  case audio: False
  show ?thesis
  proof (cases "endswith_any (lower f) nonAudioExt")
    case True
    from extLoop_noninteractive[OF assms True audio] audio True show ?thesis
      by (simp add: markFile_def)
  next
    case False
    then have "\<not> endswith_any (lower f) imageExt" "\<not> endswith_any (lower f) logExt"
      "\<not> endswith_any (lower f) cueExt" "\<not> endswith_any (lower f) m3uExt"
      by (auto simp: nonAudioExt_def endswith_any_def)
    with audio False assms show ?thesis
      by (simp add: markFile_def keeps_def keepFile_noninteractive)
  qed
qed

lemma markLoop_noninteractive:
  "distinct full \<Longrightarrow> full = pre @ files \<Longrightarrow>
   markLoop cfg full True files (idxs, kb) = Inr (idxs @ marks cfg (length pre) files, kb)"
proof (induction files arbitrary: pre idxs)
  case Nil
  then show ?case by simp
next
  case (Cons f files)
  have "length pre < length full" "full ! length pre = f" using Cons.prems(2) by auto
  with index_distinct[OF Cons.prems(1), of "length pre"] have i: "index full f = Inr (length pre)"
    by simp
  have "full = (pre @ [f]) @ files" using Cons.prems(2) by simp
  from Cons.IH[OF Cons.prems(1) this] markFile_noninteractive[OF i] show ?case by simp
qed

lemma popLoop_append:
  "popLoop (is @ js) p = (case popLoop is p of Inl e \<Rightarrow> Inl e | Inr p' \<Rightarrow> popLoop js p')"
proof (induction "is" arbitrary: p)
  case Nil
  then show ?case by simp
next
  case (Cons i "is")
  then show ?case by (cases p) (simp split: sum.splits)
qed

lemma pop_middle: "pop (length pre) (pre @ x # xs) = Inr (pre @ xs)"
  by (simp add: pop_def)

lemma popLoop_marks:
  "length pre = length pre' \<Longrightarrow> length files = length files' \<Longrightarrow>
   popLoop (rev (marks cfg (length pre) files)) (pre @ files, pre' @ files')
     = Inr (pre @ filter (keeps cfg) files,
            pre' @ map snd (filter (\<lambda>p. keeps cfg (fst p)) (zip files files')))"
proof (induction files arbitrary: pre pre' files')
  case Nil
  then show ?case by simp
next
  case (Cons f files)
  from Cons.prems(2) obtain g gs where g: "files' = g # gs" "length files = length gs"
    by (cases files') auto
  have l: "length (pre @ [f]) = length (pre' @ [g])" using Cons.prems(1) by simp
  from Cons.IH[OF l g(2)]
  have rest: "popLoop (rev (marks cfg (Suc (length pre)) files)) (pre @ f # files, pre' @ g # gs)
     = Inr (pre @ f # filter (keeps cfg) files,
            pre' @ g # map snd (filter (\<lambda>p. keeps cfg (fst p)) (zip files gs)))"
    by simp
  show ?case
  proof (cases "keeps cfg f")
    case True
    with rest g show ?thesis by simp
  next
    case False
    have "pop (length pre) (pre' @ g # ys) = Inr (pre' @ ys)" for ys
      using pop_middle[of pre' g ys] Cons.prems(1) by simp
    with False rest g show ?thesis by (simp add: popLoop_append pop_middle)
  qed
qed

lemma filter_without_duplicates:
  assumes "distinct src" and "length src = length dst"
  shows "filterOutExtensions src dst cfg True kb
     = Inr ((filter (keeps cfg) src, map snd (filter (\<lambda>p. keeps cfg (fst p)) (zip src dst))), kb)"
  using markLoop_noninteractive[OF assms(1), of "[]" src cfg "[]" kb]
    popLoop_marks[of "[]" "[]" src dst cfg] assms(2)
  by (simp add: filterOutExtensions_def)

lemma audio_kept_without_duplicates:
  assumes "distinct src" and "length src = length dst"
    and "f \<in> set src" and "endswith_any (lower f) audioExt"
  shows "\<exists>src' dst'. filterOutExtensions src dst cfg True kb = Inr ((src', dst'), kb) \<and> f \<in> set src'"
  using filter_without_duplicates[OF assms(1,2), of cfg kb] assms(3,4)
  by (simp add: keeps_def)

lemma zip_filter_fst:
  "length xs = length ys \<Longrightarrow>
   zip (filter P xs) (map snd (filter (\<lambda>p. P (fst p)) (zip xs ys))) = filter (\<lambda>p. P (fst p)) (zip xs ys)"
  by (induction xs ys rule: list_induct2) simp_all

lemma length_filter_zip:
  "length xs = length ys \<Longrightarrow> length (filter (\<lambda>p. P (fst p)) (zip xs ys)) = length (filter P xs)"
  by (induction xs ys rule: list_induct2) simp_all

lemma filter_twice_without_duplicates:
  assumes "distinct src" and "length src = length dst"
    and "filterOutExtensions src dst cfg True kb = Inr ((src', dst'), kb')"
  shows "filterOutExtensions src' dst' cfg True kb' = Inr ((src', dst'), kb')"
proof -
  from filter_without_duplicates[OF assms(1,2), of cfg kb] assms(3)
  have s: "src' = filter (keeps cfg) src"
    and d: "dst' = map snd (filter (\<lambda>p. keeps cfg (fst p)) (zip src dst))" and k: "kb' = kb"
    by simp_all
  have dist: "distinct src'" using assms(1) s by simp
  have len: "length src' = length dst'" using s d length_filter_zip[OF assms(2)] by simp
  have z: "zip src' dst' = filter (\<lambda>p. keeps cfg (fst p)) (zip src dst)"
    unfolding s d by (rule zip_filter_fst[OF assms(2)])
  from filter_without_duplicates[OF dist len, of cfg kb'] show ?thesis
    by (simp add: z) (simp add: s d)
qed

section \<open>Lemmas about the expansion\<close>

lemma walkLoop_fields:
  "sourceDirs (walkLoop d n ts st) = sourceDirs st @ map fst ts"
  "destinationDirs (walkLoop d n ts st) = destinationDirs st @ map (\<lambda>t. d @ drop n (fst t)) ts"
  "sourceFiles (walkLoop d n ts st)
     = sourceFiles st @ concat (map (\<lambda>t. map (\<lambda>file. fst t @ ''/'' @ file) (snd (snd t))) ts)"
  "destinationFiles (walkLoop d n ts st)
     = destinationFiles st @ concat (map (\<lambda>t. map (\<lambda>file. d @ drop n (fst t) @ ''/'' @ file) (snd (snd t))) ts)"
  "stdout (walkLoop d n ts st) = stdout st"
  "stderr (walkLoop d n ts st) = stderr st"
  by (induction d n ts st rule: walkLoop.induct) simp_all

lemma length_join: "\<not> startswith b ''/'' \<Longrightarrow> length a \<le> length (join a b)"
  by (simp add: join_def)

lemma valid_name_not_abs: "valid_name n \<Longrightarrow> \<not> startswith n ''/''"
  by (cases n) (auto simp: valid_name_def startswith_def)

lemma walk_roots:
  "wf_fs node \<Longrightarrow> t \<in> set (walk top_dir node) \<Longrightarrow> length top_dir \<le> length (fst t)"
proof (induction top_dir node arbitrary: t rule: walk.induct)
  case (1 top_dir entries)
  from "1.prems"(2) consider "fst t = top_dir"
    | e where "e \<in> set entries" "is_Dir (snd e)" "t \<in> set (walk (join top_dir (fst e)) (snd e))"
    by auto
  then show ?case
  proof cases
    case 1
    then show ?thesis by simp
  next
    case 2
    from "1.prems"(1) 2(1) have v: "valid_name (fst e)" and w: "wf_fs (snd e)"
      by (auto simp: list_all_iff)
    from "1.IH"[OF _ w 2(3)] 2 have "length (join top_dir (fst e)) \<le> length (fst t)" by simp
    with length_join[OF valid_name_not_abs[OF v], of top_dir] show ?thesis by simp
  qed
qed simp_all

lemma length_dirname: "length (dirname p) \<le> length p"
proof -
  have "length (rev (dropWhile (\<lambda>c. c = CHR ''/'') (rev (take i p)))) \<le> length p" for i
    using length_dropWhile_le[of "\<lambda>c. c = CHR ''/''" "rev (take i p)"] by simp
  then show ?thesis by (simp add: dirname_def Let_def)
qed

lemma expandSource_sourceDirs:
  "sourceDirs (expandSource fs d v q s st) = sourceDirs st @ newDirs fs s"
  by (simp add: expandSource_def newDirs_def Let_def walkLoop_fields split: option.splits)

lemma expandSource_sourceFiles:
  "sourceFiles (expandSource fs d v q s st) = sourceFiles st @ newFiles fs s"
  by (simp add: expandSource_def newFiles_def Let_def walkLoop_fields split: option.splits)

lemma expandSource_destinationDirs:
  "destinationDirs (expandSource fs d v q s st) = destinationDirs st @ map (cut d s) (newDirs fs s)"
  by (simp add: expandSource_def newDirs_def cut_def Let_def walkLoop_fields split: option.splits)

lemma fs_lookup_append:
  "fs_lookup n (cs @ ds) = (case fs_lookup n cs of None \<Rightarrow> None | Some m \<Rightarrow> fs_lookup m ds)"
  by (induction n cs rule: fs_lookup.induct) (auto split: option.splits)

lemma fs_lookup_wf: "wf_fs node \<Longrightarrow> fs_lookup node cs = Some n \<Longrightarrow> wf_fs n"
proof (induction node cs rule: fs_lookup.induct)
  case (2 entries c cs)
  then show ?case
    by (auto split: option.splits simp: list_all_iff dest!: map_of_SomeD)
qed simp_all

lemma cut_walk_files:
  assumes "wf_fs node"
  shows "map (cut d s) (concat (map (\<lambda>t. map (\<lambda>file. fst t @ ''/'' @ file) (snd (snd t))) (walk s node)))
       = concat (map (\<lambda>t. map (\<lambda>file. d @ drop (length (dirname s)) (fst t) @ ''/'' @ file) (snd (snd t))) (walk s node))"
proof -
  have "length (dirname s) \<le> length (fst t)" if "t \<in> set (walk s node)" for t
    using walk_roots[OF assms that] length_dirname[of s] by simp
  then show ?thesis
    by (simp add: map_concat cut_def comp_def cong: map_cong)
qed

lemma expandSource_destinationFiles:
  assumes "wf_fs fs"
  shows "destinationFiles (expandSource fs d v q s st) = destinationFiles st @ map (cut d s) (newFiles fs s)"
proof (cases "\<not> isfile fs s \<and> isdir fs s")
  case False
  then show ?thesis
    by (auto simp: expandSource_def newFiles_def cut_def Let_def)
next
  case True
  then obtain node where node: "fs_lookup fs (components s) = Some node"
    by (auto simp: isdir_def split: option.splits)
  from fs_lookup_wf[OF assms node] have "wf_fs node" .
  from cut_walk_files[OF this, of d s] True node show ?thesis
    by (simp add: expandSource_def newFiles_def Let_def walkLoop_fields)
qed

lemma expandLoop_sourceDirs:
  "sourceDirs (expandLoop fs d v q srcs st) = sourceDirs st @ concat (map (newDirs fs) srcs)"
  by (induction srcs arbitrary: st) (simp_all add: expandSource_sourceDirs)

lemma expandLoop_sourceFiles:
  "sourceFiles (expandLoop fs d v q srcs st) = sourceFiles st @ concat (map (newFiles fs) srcs)"
  by (induction srcs arbitrary: st) (simp_all add: expandSource_sourceFiles)

lemma expandLoop_destinationDirs:
  "destinationDirs (expandLoop fs d v q srcs st)
     = destinationDirs st @ concat (map (\<lambda>s. map (cut d s) (newDirs fs s)) srcs)"
  by (induction srcs arbitrary: st) (simp_all add: expandSource_destinationDirs)

lemma expandLoop_destinationFiles:
  "wf_fs fs \<Longrightarrow> destinationFiles (expandLoop fs d v q srcs st)
     = destinationFiles st @ concat (map (\<lambda>s. map (cut d s) (newFiles fs s)) srcs)"
  by (induction srcs arbitrary: st) (simp_all add: expandSource_destinationFiles)

lemma expandSource_lengths:
  "length (sourceFiles (expandSource fs d v q s st)) + length (destinationFiles st)
     = length (destinationFiles (expandSource fs d v q s st)) + length (sourceFiles st)"
  by (simp add: expandSource_def Let_def walkLoop_fields length_concat comp_def split: option.splits)

lemma expandLoop_lengths:
  "length (sourceDirs st) = length (destinationDirs st) \<Longrightarrow>
   length (sourceFiles st) = length (destinationFiles st) \<Longrightarrow>
   length (sourceDirs (expandLoop fs d v q srcs st)) = length (destinationDirs (expandLoop fs d v q srcs st))
   \<and> length (sourceFiles (expandLoop fs d v q srcs st)) = length (destinationFiles (expandLoop fs d v q srcs st))"
proof (induction srcs arbitrary: st)
  case Nil
  then show ?case by simp
next
  case (Cons s srcs)
  have "length (sourceDirs (expandSource fs d v q s st)) = length (destinationDirs (expandSource fs d v q s st))"
    using Cons.prems(1) by (simp add: expandSource_sourceDirs expandSource_destinationDirs)
  moreover have "length (sourceFiles (expandSource fs d v q s st)) = length (destinationFiles (expandSource fs d v q s st))"
    using Cons.prems(2) expandSource_lengths[of fs d v q s st] by simp
  ultimately show ?case using Cons.IH by simp
qed

text \<open>A file below a directory other than the root goes to the destination root, a slash and its base name.\<close>

lemma dirname_join:
  assumes "CHR ''/'' \<notin> set base" and "parent \<noteq> []" and "last parent \<noteq> CHR ''/''"
  shows "dirname (parent @ ''/'' @ base) = parent"
proof -
  let ?p = "parent @ ''/'' @ base"
  have tw: "takeWhile (\<lambda>c. c \<noteq> CHR ''/'') (rev ?p) = rev base"
  proof -
    have "\<And>x. x \<in> set (rev base) \<Longrightarrow> x \<noteq> CHR ''/''" using assms(1) by auto
    then have "takeWhile (\<lambda>c. c \<noteq> CHR ''/'') (rev base @ CHR ''/'' # rev parent) = rev base"
      by (simp add: takeWhile_tail)
    then show ?thesis by simp
  qed
  have hd: "take (length ?p - length (rev base)) ?p = parent @ ''/''"
    by simp
  have ne: "parent @ ''/'' \<noteq> replicate (length (parent @ ''/'')) CHR ''/''"
  proof
    assume "parent @ ''/'' = replicate (length (parent @ ''/'')) CHR ''/''"
    then have "set (parent @ ''/'') \<subseteq> {CHR ''/''}" by (metis set_replicate_conv_if empty_subsetI subset_refl)
    then have "set parent \<subseteq> {CHR ''/''}" by simp
    moreover have "last parent \<in> set parent" using assms(2) by (rule last_in_set)
    ultimately show False using assms(3) by blast
  qed
  have rs: "rev (dropWhile (\<lambda>c. c = CHR ''/'') (rev (parent @ ''/''))) = parent"
  proof -
    from assms(2,3) obtain ys y where p: "parent = ys @ [y]" "y \<noteq> CHR ''/''"
      by (metis append_butlast_last_id)
    then show ?thesis by simp
  qed
  show ?thesis
    unfolding dirname_def Let_def tw hd using ne rs by simp
qed

lemma file_below_directory:
  assumes "abspath cwd sourceLoc = parent @ ''/'' @ base"
    and "CHR ''/'' \<notin> set base" and "parent \<noteq> []" and "last parent \<noteq> CHR ''/''"
    and "isfile fs (abspath cwd sourceLoc)"
  shows "getSourceAndDestinationLists cwd fs [sourceLoc] destinationLoc verbose quiet
     = \<lparr>sourceDirs = [], sourceFiles = [parent @ ''/'' @ base], destinationDirs = [],
        destinationFiles = [abspath cwd destinationLoc @ ''/'' @ base], stdout = [], stderr = []\<rparr>"
  using assms(5) dirname_join[OF assms(2,3,4)]
  by (simp add: getSourceAndDestinationLists_def Let_def expandSource_def emptyPlan_def assms(1))

section \<open>Lemmas about the resolver\<close>

lemma selection_above_range:
  "py_int line = Some ans \<Longrightarrow> int (length deviceList) < ans \<Longrightarrow>
   chooseDevice deviceList deviceListSep False quiet (line # later)
     = Inr (([], []), if quiet then [] else [''ERROR: invalid index''])"
  by (simp add: chooseDevice_def Let_def)

lemma selection_zero:
  "py_int line = Some 0 \<Longrightarrow>
   chooseDevice deviceList deviceListSep False quiet (line # later) = Inr (([], []), [])"
  by (simp add: chooseDevice_def Let_def)

lemma selection_in_range:
  "py_int line = Some ans \<Longrightarrow> 0 < ans \<Longrightarrow> ans \<le> int (length table) \<Longrightarrow>
   chooseDevice deviceList (map (\<lambda>(dev, mnt). [dev, mnt]) table) False quiet (line # later)
     = (if int (length deviceList) < ans
        then Inr (([], []), if quiet then [] else [''ERROR: invalid index''])
        else Inr (table ! nat (ans - 1), []))"
  by (auto simp: chooseDevice_def Let_def getitem_def split: prod.splits)

section \<open>The filter and the settings it reads\<close>

text \<open>
  C1. Whether an image file is kept is meant to follow the remove-images setting. The
  code loads the image option from the key RemoveCue (line 335), so with images set to
  YES and cue sheets set to NO the image \<open>b.jpg\<close> stays in both lists, and with images
  set to NO and cue sheets set to YES it is removed.
\<close>

theorem image_option_read_from_RemoveCue:
  "filterOutExtensions [''a.mp3'', ''b.jpg'', ''c.log'']
       [''/mnt/usb/a.mp3'', ''/mnt/usb/b.jpg'', ''/mnt/usb/c.log'']
       (removalSettings YES NO NO NO NO) True []
     = Inr (([''a.mp3'', ''b.jpg'', ''c.log''],
             [''/mnt/usb/a.mp3'', ''/mnt/usb/b.jpg'', ''/mnt/usb/c.log'']), [])
   \<and> filterOutExtensions [''a.mp3'', ''b.jpg'', ''c.log'']
       [''/mnt/usb/a.mp3'', ''/mnt/usb/b.jpg'', ''/mnt/usb/c.log'']
       (removalSettings NO NO YES NO NO) True []
     = Inr (([''a.mp3'', ''c.log''], [''/mnt/usb/a.mp3'', ''/mnt/usb/c.log'']), [])"
  by code_simp

text \<open>
  C2. An audio file is meant to stay in the lists whatever the settings say. The index
  recorded for a file to remove is that of its first occurrence (lines 385 and 397), so
  when a removable path occurs twice the second removal hits whatever has moved to that
  index: here \<open>a.mp3\<close> is removed and one \<open>b.jpg\<close> stays.
\<close>

theorem audio_file_removed_with_duplicates:
  "filterOutExtensions [''b.jpg'', ''a.mp3'', ''b.jpg'']
       [''/mnt/usb/b.jpg'', ''/mnt/usb/a.mp3'', ''/mnt/usb/b.jpg'']
       (removalSettings YES NO YES NO NO) True []
     = Inr (([''b.jpg''], [''/mnt/usb/b.jpg'']), [])"
  by code_simp

text \<open>
  C9. Filtering a second time is meant to remove nothing more. With a removable path
  that occurs twice the first pass leaves one of the two behind (the first-occurrence
  index of lines 385 and 397), and the second pass removes it.
\<close>

theorem second_filter_removes_more:
  "filterOutExtensions [''cover.png'', ''song.flac'', ''cover.png'']
       [''/mnt/usb/cover.png'', ''/mnt/usb/song.flac'', ''/mnt/usb/cover.png'']
       (removalSettings YES YES YES YES YES) True []
     = Inr (([''cover.png''], [''/mnt/usb/cover.png'']), [])
   \<and> filterOutExtensions [''cover.png''] [''/mnt/usb/cover.png'']
       (removalSettings YES YES YES YES YES) True []
     = Inr (([], []), [])"
  by code_simp

section \<open>The resolver and what the user types\<close>

text \<open>
  C3. The core functions are meant to signal failure by their results and never by an
  exception. In \<open>findDeviceLocation\<close> the reply goes through \<open>int(..)\<close> with no handler
  (lines 201-204): a reply that is not a number raises ValueError, and the reply \<open>-1\<close>
  with one mounted volume raises IndexError at line 216.
\<close>

theorem findDeviceLocation_raises:
  "findDeviceLocation ''/home/u'' (mountLines [(''/dev/sdb1'', ''/mnt/usb'')]) ''music'' False False [''abc'']
     = Inl ValueError
   \<and> findDeviceLocation ''/home/u'' (mountLines [(''/dev/sdb1'', ''/mnt/usb'')]) ''music'' False False [''-1'']
     = Inl IndexError"
  by code_simp

text \<open>
  C4. A selection outside 0..n is meant to be reported and to give the pair of empty
  strings. The code tests only \<open>ans > n\<close> (line 210), so a negative selection reaches
  the indexing of line 216, which counts from the end: with two volumes the reply \<open>-1\<close>
  returns the first volume and nothing is reported. Both files do the same.
\<close>

theorem negative_selection_returns_device:
  "findDeviceLocation ''/home/u'' (mountLines twoVolumes) ''music'' False False [''-1'']
     = Inr ((''/dev/sdb1'', ''/mnt/usb''), [])
   \<and> findDeviceLocations ''/home/u'' (mountLines twoVolumes) ''music'' False False [''-1'']
     = Inr ((''/dev/sdb1'', ''/mnt/usb''), [])"
  by code_simp

section \<open>Expansion of a single file\<close>

text \<open>
  C5. A single file is meant to go to the destination root joined with its base name by
  a separator. The code appends the source without the first \<open>len(dirname(source))\<close>
  characters (line 299); for a file in the root directory \<open>dirname\<close> is \<open>/\<close>, the slash
  is cut off with it, and the destination lacks the separator.
\<close>

theorem file_in_root_loses_separator:
  "sourceFiles (getSourceAndDestinationLists ''/home/u'' musicTree [''/a.mp3''] ''/mnt/d'' False False)
     = [''/a.mp3'']
   \<and> destinationFiles (getSourceAndDestinationLists ''/home/u'' musicTree [''/a.mp3''] ''/mnt/d'' False False)
     = [''/mnt/da.mp3'']"
  by code_simp

section \<open>The availability check\<close>

text \<open>
  C10. \<open>fatsortAvailable\<close> returns True exactly when the exit status of the check is not
  zero, that is when the shell does not find fatsort, and the driver goes on past its
  check exactly then (and exits with status 1 when fatsort is found).
\<close>

theorem fatsortAvailable_inverted:
  "fatsortAvailable exitCode = (exitCode \<noteq> 0)
   \<and> fatsortAvailable (typeStatus found) = (\<not> found)
   \<and> (fst (confirmFatsort False verbose quiet exitCode) = Continue) = (exitCode \<noteq> 0)
   \<and> (fst (confirmFatsort False verbose quiet exitCode) = Exit 1) = (exitCode = 0)"
  by (simp add: fatsortAvailable_def typeStatus_def confirmFatsort_def Let_def)

section \<open>The destination rule\<close>

lemma getSourceAndDestinationLists_fields:
  "sourceDirs (getSourceAndDestinationLists cwd fs locs dloc v q)
     = concat (map (\<lambda>l. newDirs fs (abspath cwd l)) locs)"
  "sourceFiles (getSourceAndDestinationLists cwd fs locs dloc v q)
     = concat (map (\<lambda>l. newFiles fs (abspath cwd l)) locs)"
  "destinationDirs (getSourceAndDestinationLists cwd fs locs dloc v q)
     = concat (map (\<lambda>l. map (cut (abspath cwd dloc) (abspath cwd l)) (newDirs fs (abspath cwd l))) locs)"
  "wf_fs fs \<Longrightarrow> destinationFiles (getSourceAndDestinationLists cwd fs locs dloc v q)
     = concat (map (\<lambda>l. map (cut (abspath cwd dloc) (abspath cwd l)) (newFiles fs (abspath cwd l))) locs)"
  by (simp_all add: getSourceAndDestinationLists_def Let_def emptyPlan_def comp_def
      expandLoop_sourceDirs expandLoop_sourceFiles expandLoop_destinationDirs
      expandLoop_destinationFiles)

lemma map_of_distinct_iff:
  "distinct (map fst es) \<Longrightarrow> (map_of es c = Some x) = ((c, x) \<in> set es)"
  by (auto dest: map_of_SomeD intro: map_of_is_SomeI)

lemma walk_member_found:
  "wf_fs node \<Longrightarrow> (root, dirs, files) \<in> set (walk top_dir node) \<Longrightarrow>
   \<exists>cs es. fs_lookup node cs = Some (Dir es) \<and> root = descend top_dir cs
     \<and> dirs = map fst (filter (\<lambda>e. is_Dir (snd e)) es)
     \<and> files = map fst (filter (\<lambda>e. \<not> is_Dir (snd e)) es)"
proof (induction top_dir node arbitrary: root dirs files rule: walk.induct)
  case (1 top_dir entries)
  from "1.prems"(2) consider
      "root = top_dir" "dirs = map fst (filter (\<lambda>e. is_Dir (snd e)) entries)"
      "files = map fst (filter (\<lambda>e. \<not> is_Dir (snd e)) entries)"
    | e where "e \<in> set entries" "is_Dir (snd e)"
        "(root, dirs, files) \<in> set (walk (join top_dir (fst e)) (snd e))"
    by auto
  then show ?case
  proof cases
    case 1
    then have "fs_lookup (Dir entries) [] = Some (Dir entries) \<and> root = descend top_dir []"
      by (simp add: descend_def)
    with 1 show ?thesis by blast
  next
    case 2
    from "1.prems"(1) 2(1) have w: "wf_fs (snd e)" and d: "distinct (map fst entries)"
      by (auto simp: list_all_iff)
    from "1.IH"[OF _ w 2(3)] 2(1,2) obtain cs es where
      f: "fs_lookup (snd e) cs = Some (Dir es)" "root = descend (join top_dir (fst e)) cs"
      "dirs = map fst (filter (\<lambda>e. is_Dir (snd e)) es)"
      "files = map fst (filter (\<lambda>e. \<not> is_Dir (snd e)) es)"
      by auto
    from d 2(1) have "map_of entries (fst e) = Some (snd e)"
      by (simp add: map_of_distinct_iff)
    with f(1) have "fs_lookup (Dir entries) (fst e # cs) = Some (Dir es)" by simp
    moreover from f(2) have "root = descend top_dir (fst e # cs)" by (simp add: descend_def)
    ultimately show ?thesis using f(3,4) by blast
  qed
qed simp_all

lemma walk_found_member:
  "fs_lookup node cs = Some (Dir es) \<Longrightarrow>
   (descend top_dir cs, map fst (filter (\<lambda>e. is_Dir (snd e)) es),
      map fst (filter (\<lambda>e. \<not> is_Dir (snd e)) es)) \<in> set (walk top_dir node)"
proof (induction cs arbitrary: node top_dir)
  case Nil
  then show ?case by (simp add: descend_def)
next
  case (Cons c cs)
  from Cons.prems obtain entries ch where n: "node = Dir entries" "map_of entries c = Some ch"
    "fs_lookup ch cs = Some (Dir es)"
    by (cases node) (auto split: option.splits)
  from n(3) have "is_Dir ch" by (cases ch; cases cs) auto
  moreover from n(2) have "(c, ch) \<in> set entries" by (rule map_of_SomeD)
  moreover from Cons.IH[OF n(3), of "join top_dir c"]
  have "(descend top_dir (c # cs), map fst (filter (\<lambda>e. is_Dir (snd e)) es),
      map fst (filter (\<lambda>e. \<not> is_Dir (snd e)) es)) \<in> set (walk (join top_dir c) ch)"
    by (simp add: descend_def)
  ultimately show ?case unfolding n(1) by (auto intro!: bexI[of _ "(c, ch)"])
qed

lemma walk_members:
  assumes "wf_fs fs" and "fs_lookup fs base = Some (Dir entries)"
  shows "((root, dirs, files) \<in> set (walk top_dir (Dir entries))) =
     (\<exists>cs es. fs_lookup fs (base @ cs) = Some (Dir es) \<and> root = descend top_dir cs
        \<and> dirs = map fst (filter (\<lambda>e. is_Dir (snd e)) es)
        \<and> files = map fst (filter (\<lambda>e. \<not> is_Dir (snd e)) es))"
proof -
  have look: "fs_lookup fs (base @ cs) = fs_lookup (Dir entries) cs" for cs
    using assms(2) by (simp add: fs_lookup_append)
  have wf: "wf_fs (Dir entries)" using fs_lookup_wf[OF assms] .
  show ?thesis
    unfolding look
  proof
    assume "(root, dirs, files) \<in> set (walk top_dir (Dir entries))"
    then show "\<exists>cs es. fs_lookup (Dir entries) cs = Some (Dir es) \<and> root = descend top_dir cs
        \<and> dirs = map fst (filter (\<lambda>e. is_Dir (snd e)) es)
        \<and> files = map fst (filter (\<lambda>e. \<not> is_Dir (snd e)) es)"
      by (rule walk_member_found[OF wf])
  next
    assume "\<exists>cs es. fs_lookup (Dir entries) cs = Some (Dir es) \<and> root = descend top_dir cs
        \<and> dirs = map fst (filter (\<lambda>e. is_Dir (snd e)) es)
        \<and> files = map fst (filter (\<lambda>e. \<not> is_Dir (snd e)) es)"
    then obtain cs es where "fs_lookup (Dir entries) cs = Some (Dir es)" "root = descend top_dir cs"
        "dirs = map fst (filter (\<lambda>e. is_Dir (snd e)) es)"
        "files = map fst (filter (\<lambda>e. \<not> is_Dir (snd e)) es)"
      by blast
    with walk_found_member[of "Dir entries" cs es top_dir]
    show "(root, dirs, files) \<in> set (walk top_dir (Dir entries))" by simp
  qed
qed

lemma single_source_lists:
  "sourceDirs (getSourceAndDestinationLists cwd fs [loc] dloc v q) = newDirs fs (abspath cwd loc)"
  "sourceFiles (getSourceAndDestinationLists cwd fs [loc] dloc v q) = newFiles fs (abspath cwd loc)"
  "destinationDirs (getSourceAndDestinationLists cwd fs [loc] dloc v q)
     = map (cut (abspath cwd dloc) (abspath cwd loc)) (newDirs fs (abspath cwd loc))"
  "wf_fs fs \<Longrightarrow> destinationFiles (getSourceAndDestinationLists cwd fs [loc] dloc v q)
     = map (cut (abspath cwd dloc) (abspath cwd loc)) (newFiles fs (abspath cwd loc))"
  by (simp_all add: getSourceAndDestinationLists_fields)

text \<open>
  C6. On a well-formed tree the plan of one source is fixed by the tree and the rule:
  a source that is a regular file gives itself as the only source file, with the
  destination root followed by the source without its first \<open>len(dirname(source))\<close>
  characters as its destination; a source that is neither file nor directory gives
  nothing; a source that is a directory gives the directories and files of its walk,
  and the walk holds exactly the directories found in the tree below the source, each
  with its subdirectory and file names. Both destination lists are the source lists
  under the rule. For several sources each of the four lists is made of the lists of
  the single sources, one after the other. The directory \<open>/a/b/c\<close> expanded to \<open>/mnt/d\<close>
  goes to \<open>/mnt/d/c\<close>.
\<close>

theorem destination_is_root_plus_cut_source:
  assumes "wf_fs fs"
  shows "(let destinationPath = abspath cwd destinationLoc;
              source = abspath cwd sourceLoc;
              parentlen = length (dirname source);
              p = getSourceAndDestinationLists cwd fs [sourceLoc] destinationLoc verbose quiet
          in (isfile fs source \<longrightarrow>
                sourceDirs p = [] \<and> destinationDirs p = [] \<and> sourceFiles p = [source]
                \<and> destinationFiles p = [destinationPath @ drop parentlen source])
           \<and> (\<not> isfile fs source \<and> \<not> isdir fs source \<longrightarrow>
                sourceDirs p = [] \<and> destinationDirs p = [] \<and> sourceFiles p = []
                \<and> destinationFiles p = [])
           \<and> (\<forall>entries. fs_lookup fs (components source) = Some (Dir entries) \<longrightarrow>
                sourceDirs p = map fst (walk source (Dir entries))
                \<and> sourceFiles p
                    = concat (map (\<lambda>t. map (\<lambda>file. fst t @ ''/'' @ file) (snd (snd t)))
                                  (walk source (Dir entries)))
                \<and> (\<forall>root dirs files.
                      ((root, dirs, files) \<in> set (walk source (Dir entries))) =
                      (\<exists>cs es. fs_lookup fs (components source @ cs) = Some (Dir es)
                         \<and> root = descend source cs
                         \<and> dirs = map fst (filter (\<lambda>e. is_Dir (snd e)) es)
                         \<and> files = map fst (filter (\<lambda>e. \<not> is_Dir (snd e)) es))))
           \<and> destinationDirs p = map (\<lambda>path. destinationPath @ drop parentlen path) (sourceDirs p)
           \<and> destinationFiles p = map (\<lambda>path. destinationPath @ drop parentlen path) (sourceFiles p))
    \<and> (let each = (\<lambda>loc. getSourceAndDestinationLists cwd fs [loc] destinationLoc verbose quiet);
            p = getSourceAndDestinationLists cwd fs sourceLocs destinationLoc verbose quiet
        in sourceDirs p = concat (map (\<lambda>loc. sourceDirs (each loc)) sourceLocs)
         \<and> sourceFiles p = concat (map (\<lambda>loc. sourceFiles (each loc)) sourceLocs)
         \<and> destinationDirs p = concat (map (\<lambda>loc. destinationDirs (each loc)) sourceLocs)
         \<and> destinationFiles p = concat (map (\<lambda>loc. destinationFiles (each loc)) sourceLocs))
    \<and> getSourceAndDestinationLists ''/home/u'' musicTree [''/a/b/c''] ''/mnt/d'' False False
         = \<lparr>sourceDirs = [''/a/b/c'', ''/a/b/c/art''],
            sourceFiles = [''/a/b/c/x.mp3'', ''/a/b/c/art/y.jpg''],
            destinationDirs = [''/mnt/d/c'', ''/mnt/d/c/art''],
            destinationFiles = [''/mnt/d/c/x.mp3'', ''/mnt/d/c/art/y.jpg''],
            stdout = [], stderr = []\<rparr>"
proof -
  let ?s = "abspath cwd sourceLoc"
  let ?d = "abspath cwd destinationLoc"
  let ?p = "getSourceAndDestinationLists cwd fs [sourceLoc] destinationLoc verbose quiet"
  have cut: "cut d s = (\<lambda>path. d @ drop (length (dirname s)) path)" for d s
    by (rule ext) (simp add: cut_def)
  note single = single_source_lists[where cwd=cwd and fs=fs and loc=sourceLoc and dloc=destinationLoc
      and v=verbose and q=quiet]
  have regular: "sourceDirs ?p = [] \<and> destinationDirs ?p = [] \<and> sourceFiles ?p = [?s]
      \<and> destinationFiles ?p = [?d @ drop (length (dirname ?s)) ?s]" if "isfile fs ?s"
    using that assms by (simp add: single newDirs_def newFiles_def cut_def)
  have none: "sourceDirs ?p = [] \<and> destinationDirs ?p = [] \<and> sourceFiles ?p = []
      \<and> destinationFiles ?p = []" if "\<not> isfile fs ?s \<and> \<not> isdir fs ?s"
    using that assms by (simp add: single newDirs_def newFiles_def)
  have dir: "sourceDirs ?p = map fst (walk ?s (Dir entries))
      \<and> sourceFiles ?p = concat (map (\<lambda>t. map (\<lambda>file. fst t @ ''/'' @ file) (snd (snd t)))
                                  (walk ?s (Dir entries)))"
    if "fs_lookup fs (components ?s) = Some (Dir entries)" for entries
    using that by (simp add: single newDirs_def newFiles_def isfile_def isdir_def)
  have rule: "destinationDirs ?p = map (\<lambda>path. ?d @ drop (length (dirname ?s)) path) (sourceDirs ?p)"
    "destinationFiles ?p = map (\<lambda>path. ?d @ drop (length (dirname ?s)) path) (sourceFiles ?p)"
    using assms by (simp_all add: single cut)
  have first: "(isfile fs ?s \<longrightarrow>
                sourceDirs ?p = [] \<and> destinationDirs ?p = [] \<and> sourceFiles ?p = [?s]
                \<and> destinationFiles ?p = [?d @ drop (length (dirname ?s)) ?s])
           \<and> (\<not> isfile fs ?s \<and> \<not> isdir fs ?s \<longrightarrow>
                sourceDirs ?p = [] \<and> destinationDirs ?p = [] \<and> sourceFiles ?p = []
                \<and> destinationFiles ?p = [])
           \<and> (\<forall>entries. fs_lookup fs (components ?s) = Some (Dir entries) \<longrightarrow>
                sourceDirs ?p = map fst (walk ?s (Dir entries))
                \<and> sourceFiles ?p
                    = concat (map (\<lambda>t. map (\<lambda>file. fst t @ ''/'' @ file) (snd (snd t)))
                                  (walk ?s (Dir entries)))
                \<and> (\<forall>root dirs files.
                      ((root, dirs, files) \<in> set (walk ?s (Dir entries))) =
                      (\<exists>cs es. fs_lookup fs (components ?s @ cs) = Some (Dir es)
                         \<and> root = descend ?s cs
                         \<and> dirs = map fst (filter (\<lambda>e. is_Dir (snd e)) es)
                         \<and> files = map fst (filter (\<lambda>e. \<not> is_Dir (snd e)) es))))
           \<and> destinationDirs ?p = map (\<lambda>path. ?d @ drop (length (dirname ?s)) path) (sourceDirs ?p)
           \<and> destinationFiles ?p = map (\<lambda>path. ?d @ drop (length (dirname ?s)) path) (sourceFiles ?p)"
    using regular none dir rule walk_members[OF assms] by blast
  have second: "(let each = (\<lambda>loc. getSourceAndDestinationLists cwd fs [loc] destinationLoc verbose quiet);
            p = getSourceAndDestinationLists cwd fs sourceLocs destinationLoc verbose quiet
        in sourceDirs p = concat (map (\<lambda>loc. sourceDirs (each loc)) sourceLocs)
         \<and> sourceFiles p = concat (map (\<lambda>loc. sourceFiles (each loc)) sourceLocs)
         \<and> destinationDirs p = concat (map (\<lambda>loc. destinationDirs (each loc)) sourceLocs)
         \<and> destinationFiles p = concat (map (\<lambda>loc. destinationFiles (each loc)) sourceLocs))"
    using assms by (simp add: Let_def getSourceAndDestinationLists_fields)
  have ex: "getSourceAndDestinationLists ''/home/u'' musicTree [''/a/b/c''] ''/mnt/d'' False False
         = \<lparr>sourceDirs = [''/a/b/c'', ''/a/b/c/art''],
            sourceFiles = [''/a/b/c/x.mp3'', ''/a/b/c/art/y.jpg''],
            destinationDirs = [''/mnt/d/c'', ''/mnt/d/c/art''],
            destinationFiles = [''/mnt/d/c/x.mp3'', ''/mnt/d/c/art/y.jpg''],
            stdout = [], stderr = []\<rparr>"
    by code_simp
  show ?thesis
    unfolding Let_def by (rule conjI[OF first conjI[OF second[unfolded Let_def] ex]])
qed

theorem destination_is_root_plus_cut_source_witness:
  "wf_fs musicTree
   \<and> isfile musicTree (abspath ''/home/u'' ''/a/t.mp3'')
   \<and> sourceFiles (getSourceAndDestinationLists ''/home/u'' musicTree [''/a/t.mp3''] ''/mnt/d'' False False)
       = [''/a/t.mp3'']
   \<and> destinationFiles (getSourceAndDestinationLists ''/home/u'' musicTree [''/a/t.mp3''] ''/mnt/d'' False False)
       = [''/mnt/d/t.mp3'']
   \<and> \<not> isfile musicTree (abspath ''/home/u'' ''zz'')
   \<and> \<not> isdir musicTree (abspath ''/home/u'' ''zz'')
   \<and> sourceFiles (getSourceAndDestinationLists ''/home/u'' musicTree [''zz''] ''/mnt/d'' False False) = []
   \<and> destinationFiles (getSourceAndDestinationLists ''/home/u'' musicTree [''zz''] ''/mnt/d'' False False) = []
   \<and> fs_lookup musicTree (components (abspath ''/home/u'' ''../../a/b/c''))
       = Some (Dir [(''x.mp3'', RegFile), (''art'', Dir [(''y.jpg'', RegFile)])])
   \<and> sourceDirs (getSourceAndDestinationLists ''/home/u'' musicTree [''../../a/b/c''] ''/mnt/d'' False False)
       = [''/a/b/c'', ''/a/b/c/art'']
   \<and> destinationDirs (getSourceAndDestinationLists ''/home/u'' musicTree [''../../a/b/c''] ''/mnt/d'' False False)
       = [''/mnt/d/c'', ''/mnt/d/c/art'']
   \<and> sourceFiles (getSourceAndDestinationLists ''/home/u'' musicTree [''../../a/b/c''] ''/mnt/d'' False False)
       = [''/a/b/c/x.mp3'', ''/a/b/c/art/y.jpg'']
   \<and> destinationFiles (getSourceAndDestinationLists ''/home/u'' musicTree [''../../a/b/c''] ''/mnt/d'' False False)
       = [''/mnt/d/c/x.mp3'', ''/mnt/d/c/art/y.jpg'']"
proof -
  let ?tree = "Dir [(''x.mp3'', RegFile), (''art'', Dir [(''y.jpg'', RegFile)])]"
  have wf: "wf_fs musicTree"
    by (simp add: musicTree_def valid_name_def)
  have h1: "isfile musicTree (abspath ''/home/u'' ''/a/t.mp3'')"
    and h2: "\<not> isfile musicTree (abspath ''/home/u'' ''zz'')"
    and h3: "\<not> isdir musicTree (abspath ''/home/u'' ''zz'')"
    and h4: "fs_lookup musicTree (components (abspath ''/home/u'' ''../../a/b/c'')) = Some ?tree"
    by code_simp+
  have e1: "[abspath ''/home/u'' ''/a/t.mp3''] = [''/a/t.mp3'']"
    and e2: "[abspath ''/home/u'' ''/mnt/d'' @ drop (length (dirname (abspath ''/home/u'' ''/a/t.mp3'')))
               (abspath ''/home/u'' ''/a/t.mp3'')] = [''/mnt/d/t.mp3'']"
    and e3: "map fst (walk (abspath ''/home/u'' ''../../a/b/c'') ?tree) = [''/a/b/c'', ''/a/b/c/art'']"
    and e4: "concat (map (\<lambda>t. map (\<lambda>file. fst t @ ''/'' @ file) (snd (snd t)))
               (walk (abspath ''/home/u'' ''../../a/b/c'') ?tree)) = [''/a/b/c/x.mp3'', ''/a/b/c/art/y.jpg'']"
    and e5: "map (\<lambda>path. abspath ''/home/u'' ''/mnt/d''
                 @ drop (length (dirname (abspath ''/home/u'' ''../../a/b/c''))) path)
               [''/a/b/c'', ''/a/b/c/art''] = [''/mnt/d/c'', ''/mnt/d/c/art'']"
    and e6: "map (\<lambda>path. abspath ''/home/u'' ''/mnt/d''
                 @ drop (length (dirname (abspath ''/home/u'' ''../../a/b/c''))) path)
               [''/a/b/c/x.mp3'', ''/a/b/c/art/y.jpg''] = [''/mnt/d/c/x.mp3'', ''/mnt/d/c/art/y.jpg'']"
    by code_simp+
  note regular = destination_is_root_plus_cut_source[OF wf, where cwd="''/home/u''"
      and sourceLoc="''/a/t.mp3''" and destinationLoc="''/mnt/d''" and verbose=False and quiet=False,
      unfolded Let_def, THEN conjunct1, THEN conjunct1, rule_format, OF h1]
  note missing = destination_is_root_plus_cut_source[OF wf, where cwd="''/home/u''"
      and sourceLoc="''zz''" and destinationLoc="''/mnt/d''" and verbose=False and quiet=False,
      unfolded Let_def, THEN conjunct1, THEN conjunct2, THEN conjunct1, rule_format, OF conjI[OF h2 h3]]
  note whole = destination_is_root_plus_cut_source[OF wf, where cwd="''/home/u''"
      and sourceLoc="''../../a/b/c''" and destinationLoc="''/mnt/d''" and verbose=False and quiet=False,
      unfolded Let_def, THEN conjunct1, THEN conjunct2, THEN conjunct2]
  note below = whole[THEN conjunct1, rule_format, OF h4]
  note dest = whole[THEN conjunct2]
  have c1: "sourceFiles (getSourceAndDestinationLists ''/home/u'' musicTree [''/a/t.mp3''] ''/mnt/d'' False False)
       = [''/a/t.mp3'']"
    by (rule trans[OF regular[THEN conjunct2, THEN conjunct2, THEN conjunct1] e1])
  have c2: "destinationFiles (getSourceAndDestinationLists ''/home/u'' musicTree [''/a/t.mp3''] ''/mnt/d'' False False)
       = [''/mnt/d/t.mp3'']"
    by (rule trans[OF regular[THEN conjunct2, THEN conjunct2, THEN conjunct2] e2])
  have c3: "sourceFiles (getSourceAndDestinationLists ''/home/u'' musicTree [''zz''] ''/mnt/d'' False False) = []"
    "destinationFiles (getSourceAndDestinationLists ''/home/u'' musicTree [''zz''] ''/mnt/d'' False False) = []"
    by (rule missing[THEN conjunct2, THEN conjunct2, THEN conjunct1])
       (rule missing[THEN conjunct2, THEN conjunct2, THEN conjunct2])
  have c4: "sourceDirs (getSourceAndDestinationLists ''/home/u'' musicTree [''../../a/b/c''] ''/mnt/d'' False False)
       = [''/a/b/c'', ''/a/b/c/art'']"
    by (rule trans[OF below[THEN conjunct1] e3])
  have c5: "sourceFiles (getSourceAndDestinationLists ''/home/u'' musicTree [''../../a/b/c''] ''/mnt/d'' False False)
       = [''/a/b/c/x.mp3'', ''/a/b/c/art/y.jpg'']"
    by (rule trans[OF below[THEN conjunct2, THEN conjunct1] e4])
  have c6: "destinationDirs (getSourceAndDestinationLists ''/home/u'' musicTree [''../../a/b/c''] ''/mnt/d'' False False)
       = [''/mnt/d/c'', ''/mnt/d/c/art'']"
    by (rule trans[OF dest[THEN conjunct1, unfolded c4] e5])
  have c7: "destinationFiles (getSourceAndDestinationLists ''/home/u'' musicTree [''../../a/b/c''] ''/mnt/d'' False False)
       = [''/mnt/d/c/x.mp3'', ''/mnt/d/c/art/y.jpg'']"
    by (rule trans[OF dest[THEN conjunct2, unfolded c5] e6])
  from wf h1 c1 c2 h2 h3 c3 h4 c4 c6 c5 c7 show ?thesis by (intro conjI)
qed

section \<open>The lists stay paired\<close>

text \<open>
  C7. After the expansion the two file lists have the same length and so have the two
  directory lists. The filter keeps two file lists of the same length at the same
  length, and the pairs that remain are pairs of the input in their order, since every
  index is popped from both lists. The filter raises nothing but the EOFError of an
  exhausted standard input, and that only in an interactive run.
\<close>

theorem plan_lists_stay_paired:
  "length (sourceFiles (getSourceAndDestinationLists cwd fs sourceLocs destinationLoc verbose quiet))
     = length (destinationFiles (getSourceAndDestinationLists cwd fs sourceLocs destinationLoc verbose quiet))
   \<and> length (sourceDirs (getSourceAndDestinationLists cwd fs sourceLocs destinationLoc verbose quiet))
     = length (destinationDirs (getSourceAndDestinationLists cwd fs sourceLocs destinationLoc verbose quiet))
   \<and> (length sourceFileList = length destinationFileList \<longrightarrow>
        (case filterOutExtensions sourceFileList destinationFileList cfg noninteractive keyboard of
           Inl e \<Rightarrow> e = EOFError \<and> \<not> noninteractive
         | Inr ((sourceFileList', destinationFileList'), keyboard') \<Rightarrow>
             length sourceFileList' = length destinationFileList'
             \<and> subseq (zip sourceFileList' destinationFileList')
                       (zip sourceFileList destinationFileList)))"
  using expandLoop_lengths[of emptyPlan fs "abspath cwd destinationLoc" verbose quiet
          "map (abspath cwd) sourceLocs"]
    filterOutExtensions_paired[where src=sourceFileList and dst=destinationFileList and cfg=cfg
      and nonint=noninteractive and kb=keyboard]
  by (simp add: getSourceAndDestinationLists_def Let_def emptyPlan_def)

theorem plan_lists_stay_paired_witness:
  "length [''a.mp3'', ''b.jpg'', ''c.log''] = length [''/m/a.mp3'', ''/m/b.jpg'', ''/m/c.log'']
   \<and> filterOutExtensions [''a.mp3'', ''b.jpg'', ''c.log''] [''/m/a.mp3'', ''/m/b.jpg'', ''/m/c.log'']
         (removalSettings NO NO YES NO NO) True []
       = Inr (([''a.mp3'', ''c.log''], [''/m/a.mp3'', ''/m/c.log'']), [])
   \<and> subseq (zip [''a.mp3'', ''c.log''] [''/m/a.mp3'', ''/m/c.log''])
             (zip [''a.mp3'', ''b.jpg'', ''c.log''] [''/m/a.mp3'', ''/m/b.jpg'', ''/m/c.log''])"
proof -
  have len: "length [''a.mp3'', ''b.jpg'', ''c.log''] = length [''/m/a.mp3'', ''/m/b.jpg'', ''/m/c.log'']"
    by simp
  have run: "filterOutExtensions [''a.mp3'', ''b.jpg'', ''c.log''] [''/m/a.mp3'', ''/m/b.jpg'', ''/m/c.log'']
         (removalSettings NO NO YES NO NO) True []
       = Inr (([''a.mp3'', ''c.log''], [''/m/a.mp3'', ''/m/c.log'']), [])"
    by code_simp
  from plan_lists_stay_paired[where sourceFileList="[''a.mp3'', ''b.jpg'', ''c.log'']"
         and destinationFileList="[''/m/a.mp3'', ''/m/b.jpg'', ''/m/c.log'']"
         and cfg="removalSettings NO NO YES NO NO" and noninteractive=True and keyboard="[]"] len
  have "case filterOutExtensions [''a.mp3'', ''b.jpg'', ''c.log''] [''/m/a.mp3'', ''/m/b.jpg'', ''/m/c.log'']
         (removalSettings NO NO YES NO NO) True [] of
           Inl e \<Rightarrow> e = EOFError \<and> \<not> True
         | Inr ((sourceFileList', destinationFileList'), keyboard') \<Rightarrow>
             length sourceFileList' = length destinationFileList'
             \<and> subseq (zip sourceFileList' destinationFileList')
                       (zip [''a.mp3'', ''b.jpg'', ''c.log''] [''/m/a.mp3'', ''/m/b.jpg'', ''/m/c.log''])"
    by blast
  then have "subseq (zip [''a.mp3'', ''c.log''] [''/m/a.mp3'', ''/m/c.log''])
             (zip [''a.mp3'', ''b.jpg'', ''c.log''] [''/m/a.mp3'', ''/m/b.jpg'', ''/m/c.log''])"
    unfolding run by simp
  with len run show ?thesis by blast
qed

section \<open>Lemmas about the directory loop\<close>
























section \<open>A file where a directory is wanted\<close>




end
